theory Spec2Isabelle
  imports Main
begin

section \<open>JavaScript values\<close>

text \<open>
  The items of a call record are \<^verbatim>\<open>Record<string, unknown>\<close>: objects decoded from JSON
  whose fields the classifier probes dynamically. A value is therefore one of the JavaScript
  values that JSON decoding can produce, plus \<^verbatim>\<open>undefined\<close>, which a read of an absent
  field yields. An object is an association list; the first binding of a key is the one read.

  Strings are lists of \<^typ>\<open>char\<close>, one \<^typ>\<open>char\<close> per UTF-16 code unit, so the model
  covers the code units below 256. Numbers are the integer values; fractions are not
  modelled.
\<close>

datatype jsval =
    Undefined
  | Null
  | Bool bool
  | Num int
  | Str string
  | Arr "jsval list"
  | Obj "(string \<times> jsval) list"

type_synonym jsobj = "(string \<times> jsval) list"

datatype error = TypeError

text \<open>Sequencing of a computation that may throw: the first exception ends it.\<close>

definition and_then :: "error + 'a \<Rightarrow> ('a \<Rightarrow> error + 'b) \<Rightarrow> error + 'b" where
  "and_then m f = (case m of Inl e \<Rightarrow> Inl e | Inr x \<Rightarrow> f x)"

text \<open>\<^verbatim>\<open>item.k\<close> on an object: the value bound to \<open>k\<close>, \<^verbatim>\<open>undefined\<close> when absent.\<close>

definition get :: "jsobj \<Rightarrow> string \<Rightarrow> jsval" where
  "get item k = (case map_of item k of None \<Rightarrow> Undefined | Some v \<Rightarrow> v)"

text \<open>
  \<^verbatim>\<open>v.k\<close> on a value of unknown type. Reading a property of \<^verbatim>\<open>undefined\<close> or
  \<^verbatim>\<open>null\<close> throws a TypeError. The source reads only the keys \<^verbatim>\<open>type\<close>,
  \<^verbatim>\<open>text\<close>, \<^verbatim>\<open>image_url\<close>, \<^verbatim>\<open>message\<close> and \<^verbatim>\<open>command\<close> this way;
  no prototype of a boolean, number, string or array defines any of them, so the read yields
  \<^verbatim>\<open>undefined\<close> there.
\<close>

fun field :: "jsval \<Rightarrow> string \<Rightarrow> error + jsval" where
  "field Undefined k = Inl TypeError"
| "field Null k = Inl TypeError"
| "field (Obj kvs) k = Inr (get kvs k)"
| "field v k = Inr Undefined"

text \<open>Truthiness, as \<^verbatim>\<open>||\<close> and \<^verbatim>\<open>if\<close> test it.\<close>

fun truthy :: "jsval \<Rightarrow> bool" where
  "truthy Undefined = False"
| "truthy Null = False"
| "truthy (Bool b) = b"
| "truthy (Num n) = (n \<noteq> 0)"
| "truthy (Str s) = (s \<noteq> [])"
| "truthy (Arr xs) = True"
| "truthy (Obj kvs) = True"

fun intercalate :: "string \<Rightarrow> string list \<Rightarrow> string" where
  "intercalate sep [] = []"
| "intercalate sep [x] = x"
| "intercalate sep (x # y # ys) = x @ sep @ intercalate sep (y # ys)"

definition digit_char :: "nat \<Rightarrow> char" where
  "digit_char d = char_of (48 + d)"

function digits :: "nat \<Rightarrow> string" where
  "digits n = (if n < 10 then [digit_char n] else digits (n div 10) @ [digit_char (n mod 10)])"
  by pat_completeness auto
termination
  by (relation "measure (\<lambda>n. n)") auto

definition num_to_string :: "int \<Rightarrow> string" where
  "num_to_string n = (if n < 0 then ''-'' @ digits (nat (- n)) else digits (nat n))"

text \<open>
  \<^verbatim>\<open>JSON.parse\<close>, \<^verbatim>\<open>JSON.stringify(v, null, 2)\<close> and the printing of numbers
  belong to the JavaScript runtime, not to the repository; the classifier takes them as
  parameters. \<open>JSON_parse\<close> returns \<open>None\<close> where \<^verbatim>\<open>JSON.parse\<close> throws a SyntaxError.
  \<open>Number_toString\<close> is consulted only beyond the safe integers, where JavaScript prints
  the shortest numeral that reads back as the same double, in exponent form from
  \<open>10\<^sup>2\<^sup>1\<close> on.
\<close>

record runtime =
  JSON_parse :: "string \<Rightarrow> jsval option"
  JSON_stringify :: "jsval \<Rightarrow> jsval"
  Number_toString :: "int \<Rightarrow> string"

text \<open>The first exception of a list of computations, or all their results.\<close>

fun sequence :: "(error + 'a) list \<Rightarrow> error + 'a list" where
  "sequence [] = Inr []"
| "sequence (m # ms) = and_then m (\<lambda>x. and_then (sequence ms) (\<lambda>xs. Inr (x # xs)))"

text \<open>
  \<^verbatim>\<open>String(v)\<close>, which is also what a template literal \<^verbatim>\<open>${v}\<close> inserts. An array
  prints as its elements joined by commas, \<^verbatim>\<open>null\<close> and \<^verbatim>\<open>undefined\<close> elements as
  the empty string. An object prints through its \<^verbatim>\<open>toString\<close> method: the inherited one
  gives \<^verbatim>\<open>[object Object]\<close>; an object decoded from JSON that has a key
  \<^verbatim>\<open>toString\<close> of its own hides it by a value that is not a function, and as its
  \<^verbatim>\<open>valueOf\<close> yields no primitive either, the conversion throws a TypeError.
\<close>

fun to_string :: "runtime \<Rightarrow> jsval \<Rightarrow> error + string" where
  "to_string rt Undefined = Inr ''undefined''"
| "to_string rt Null = Inr ''null''"
| "to_string rt (Bool b) = Inr (if b then ''true'' else ''false'')"
| "to_string rt (Num n) =
     Inr (if \<bar>n\<bar> \<le> 9007199254740992 then num_to_string n else Number_toString rt n)"
| "to_string rt (Str s) = Inr s"
| "to_string rt (Arr xs) =
     and_then
       (sequence (map (\<lambda>x. if x = Undefined \<or> x = Null then Inr [] else to_string rt x) xs))
       (\<lambda>ss. Inr (intercalate '','' ss))"
| "to_string rt (Obj kvs) =
     (if map_of kvs ''toString'' = None then Inr ''[object Object]'' else Inl TypeError)"

text \<open>\<^verbatim>\<open>xs.join(sep)\<close>.\<close>

definition join :: "runtime \<Rightarrow> string \<Rightarrow> jsval list \<Rightarrow> error + string" where
  "join rt sep xs =
     and_then
       (sequence (map (\<lambda>x. if x = Undefined \<or> x = Null then Inr [] else to_string rt x) xs))
       (\<lambda>ss. Inr (intercalate sep ss))"

section \<open>Transcript lines and call records\<close>

datatype Side = Left | Right | System

datatype Phase = Normal | Dream | Planning

text \<open>
  \<^verbatim>\<open>type Msg = { side; text; phase; image?; isRespond? }\<close>. The fields \<open>text'\<close> and
  \<open>image'\<close> hold whatever value the item carried (the source only casts it to a string);
  \<open>image'\<close> is \<open>Undefined\<close> when the line has no image, \<open>isRespond\<close> is \<open>None\<close> when the
  key is absent.
\<close>

record Msg =
  side :: Side
  text' :: jsval
  phase :: Phase
  image' :: jsval
  isRespond :: "bool option"

text \<open>\<^verbatim>\<open>interface ApiCall\<close>; \<open>is_dream\<close> and \<open>is_planning\<close> are optional.\<close>

record ApiCall =
  timestamp :: string
  instructions :: string
  input :: "jsobj list"
  output' :: "jsobj list"
  is_dream :: "bool option"
  is_planning :: "bool option"

section \<open>The item classifier\<close>

text \<open>
  The loop over the parts of a structured content list in \<^verbatim>\<open>renderInputItem\<close>. The state
  is the pair of the local variables \<^verbatim>\<open>text\<close> and \<^verbatim>\<open>image\<close>; every matching part
  overwrites the variable.
\<close>

fun content_parts :: "jsval list \<Rightarrow> jsval \<times> jsval \<Rightarrow> error + (jsval \<times> jsval)" where
  "content_parts [] (txt, img) = Inr (txt, img)"
| "content_parts (part # parts) (txt, img) =
     and_then (field part ''type'') (\<lambda>ty1.
     and_then (if ty1 = Str ''input_text'' then field part ''text'' else Inr txt) (\<lambda>txt'.
     and_then (field part ''type'') (\<lambda>ty2.
     and_then (if ty2 = Str ''input_image'' then field part ''image_url'' else Inr img) (\<lambda>img'.
     content_parts parts (txt', img')))))"

definition renderInputItem :: "jsobj \<Rightarrow> Phase \<Rightarrow> error + Msg option" where
  "renderInputItem item ph =
     (if get item ''role'' = Str ''user'' then
        (let content = get item ''content'' in
         case content of
           Arr parts \<Rightarrow>
             and_then (content_parts parts (Str [], Undefined)) (\<lambda>(txt, img).
               Inr (Some \<lparr>side = Left, text' = (if truthy txt then txt else Str ''[image]''),
                          phase = ph, image' = img, isRespond = None\<rparr>))
         | _ \<Rightarrow>
             Inr (Some \<lparr>side = Left, text' = content, phase = ph, image' = Undefined,
                        isRespond = None\<rparr>))
      else if get item ''type'' = Str ''function_call_output'' then
        Inr (Some \<lparr>side = Left, text' = get item ''output'', phase = ph, image' = Undefined,
                   isRespond = None\<rparr>)
      else Inr None)"

text \<open>
  The callback of \<^verbatim>\<open>content?.map(...)\<close> in \<^verbatim>\<open>renderOutputItem\<close>:
  \<^verbatim>\<open>(c) => c.text || `[${c.type}]`\<close>.
\<close>

definition message_part :: "runtime \<Rightarrow> jsval \<Rightarrow> error + jsval" where
  "message_part rt c =
     and_then (field c ''text'') (\<lambda>t.
       if truthy t then Inr t
       else and_then (field c ''type'') (\<lambda>ty.
            and_then (to_string rt ty) (\<lambda>tag. Inr (Str (''['' @ tag @ '']'')))))"

fun map_parts :: "runtime \<Rightarrow> jsval list \<Rightarrow> error + jsval list" where
  "map_parts rt [] = Inr []"
| "map_parts rt (c # cs) =
     and_then (message_part rt c) (\<lambda>v. and_then (map_parts rt cs) (\<lambda>vs. Inr (v # vs)))"

text \<open>
  The \<^verbatim>\<open>try\<close> block shared by the \<^verbatim>\<open>respond\<close> and \<^verbatim>\<open>shell\<close> branches: parse the
  arguments when they are a string, then read field \<open>k\<close>. \<open>None\<close> stands for any exception
  inside the block (a SyntaxError of the parser or the TypeError of reading a field of
  \<^verbatim>\<open>null\<close> or \<^verbatim>\<open>undefined\<close>), which the \<^verbatim>\<open>catch\<close> clause handles.
\<close>

definition try_args_field :: "runtime \<Rightarrow> jsobj \<Rightarrow> string \<Rightarrow> jsval option" where
  "try_args_field rt item k =
     (case (case get item ''arguments'' of Str s \<Rightarrow> JSON_parse rt s | a \<Rightarrow> Some a) of
        None \<Rightarrow> None
      | Some args \<Rightarrow> (case field args k of Inl e \<Rightarrow> None | Inr v \<Rightarrow> Some v))"

text \<open>
  The command line of a \<^verbatim>\<open>shell\<close> call. The template literal is inside the
  \<^verbatim>\<open>try\<close> block, so a conversion that throws there is caught as well; the template
  literal of the \<^verbatim>\<open>catch\<close> clause is not protected.
\<close>

definition shell_cmd :: "runtime \<Rightarrow> jsobj \<Rightarrow> error + string" where
  "shell_cmd rt item =
     (let fallback = and_then (to_string rt (get item ''arguments'')) (\<lambda>a. Inr (''$ '' @ a)) in
      case try_args_field rt item ''command'' of
        Some c \<Rightarrow> (case to_string rt c of Inr cs \<Rightarrow> Inr (''$ '' @ cs) | Inl e \<Rightarrow> fallback)
      | None \<Rightarrow> fallback)"

definition renderOutputItem :: "runtime \<Rightarrow> jsobj \<Rightarrow> Phase \<Rightarrow> error + Msg option" where
  "renderOutputItem rt item ph =
     (if get item ''type'' = Str ''message'' then
        (case get item ''content'' of
           Undefined \<Rightarrow> Inr None
         | Null \<Rightarrow> Inr None
         | Arr cs \<Rightarrow>
             and_then (map_parts rt cs) (\<lambda>vs.
             and_then (join rt ''\<newline>'' vs) (\<lambda>txt.
               if txt \<noteq> [] then
                 Inr (Some \<lparr>side = Right, text' = Str txt, phase = ph, image' = Undefined,
                            isRespond = None\<rparr>)
               else Inr None))
         | _ \<Rightarrow> Inl TypeError)
      else if get item ''type'' = Str ''function_call'' then
        (if get item ''name'' = Str ''respond'' then
           (case try_args_field rt item ''message'' of
              Some m \<Rightarrow>
                Inr (Some \<lparr>side = Right, text' = m, phase = ph, image' = Undefined,
                           isRespond = Some True\<rparr>)
            | None \<Rightarrow>
                and_then (to_string rt (get item ''arguments'')) (\<lambda>a.
                Inr (Some \<lparr>side = Right, text' = Str a, phase = ph, image' = Undefined,
                           isRespond = Some True\<rparr>)))
         else
           and_then
             (if get item ''name'' = Str ''shell'' then shell_cmd rt item
              else
                (let args = (case get item ''arguments'' of
                               Str s \<Rightarrow> Str s
                             | a \<Rightarrow> JSON_stringify rt a)
                 in and_then (to_string rt (get item ''name'')) (\<lambda>n.
                    and_then (to_string rt args) (\<lambda>a. Inr (''['' @ n @ ''] '' @ a)))))
             (\<lambda>cmd.
                Inr (Some \<lparr>side = Right, text' = Str cmd, phase = ph, image' = Undefined,
                           isRespond = None\<rparr>)))
      else if get item ''type'' = Str ''web_search_call'' then
        Inr (Some \<lparr>side = Right, text' = Str ''[web search]'', phase = ph, image' = Undefined,
                   isRespond = None\<rparr>)
      else Inr None)"

section \<open>Stripping the volatile parts of the instructions\<close>

definition starts_with :: "string \<Rightarrow> string \<Rightarrow> bool" where
  "starts_with p s = (take (length p) s = p)"

text \<open>The characters that \<^verbatim>\<open>.\<close> does not match: line feed and carriage return.\<close>

definition line_terminator :: "char \<Rightarrow> bool" where
  "line_terminator c = (c = CHR 0x0A \<or> c = CHR 0x0D)"

text \<open>
  \<^verbatim>\<open>/Right now it is .+\n/\<close> anchored at the head of \<open>s\<close>: the length of the match, if
  there is one. The greedy \<^verbatim>\<open>.+\<close> runs to the next line terminator, which must be a line
  feed; no shorter run is followed by a line feed.
\<close>

definition match_time :: "string \<Rightarrow> nat option" where
  "match_time s =
     (if starts_with ''Right now it is '' s then
        (let rest = drop 16 s;
             run = takeWhile (\<lambda>c. \<not> line_terminator c) rest
         in if run \<noteq> [] \<and> starts_with ''\<newline>'' (drop (length run) rest)
            then Some (16 + length run + 1) else None)
      else None)"

text \<open>
  The lazy \<^verbatim>\<open>[\s\S]*?\<close> before the lookahead \<^verbatim>\<open>(?=\n##)\<close>: the number of characters
  up to the first occurrence of a line feed followed by two hashes.
\<close>

fun lazy_until_heading :: "string \<Rightarrow> nat option" where
  "lazy_until_heading [] = None"
| "lazy_until_heading (c # cs) =
     (if starts_with ''\<newline>##'' (c # cs) then Some 0
      else map_option Suc (lazy_until_heading cs))"

text \<open>\<^verbatim>\<open>/## Current (mood|focus)\n[\s\S]*?(?=\n##)/\<close> anchored at the head of \<open>s\<close>.\<close>

definition match_mood :: "string \<Rightarrow> nat option" where
  "match_mood s =
     (if starts_with ''## Current mood\<newline>'' s then
        map_option (\<lambda>n. 16 + n) (lazy_until_heading (drop 16 s))
      else if starts_with ''## Current focus\<newline>'' s then
        map_option (\<lambda>n. 17 + n) (lazy_until_heading (drop 17 s))
      else None)"

text \<open>
  \<^verbatim>\<open>s.replace(re, "")\<close> for a regular expression without the global flag: the leftmost
  match is deleted; without a match the string is unchanged.
\<close>

fun replace_first :: "(string \<Rightarrow> nat option) \<Rightarrow> string \<Rightarrow> string" where
  "replace_first m [] = (case m [] of Some n \<Rightarrow> [] | None \<Rightarrow> [])"
| "replace_first m (c # cs) =
     (case m (c # cs) of Some n \<Rightarrow> drop n (c # cs) | None \<Rightarrow> c # replace_first m cs)"

definition strip :: "string \<Rightarrow> string" where
  "strip s = replace_first match_mood (replace_first match_time s)"

section \<open>The reconciliation loop\<close>

definition flag :: "bool option \<Rightarrow> bool" where
  "flag b = (case b of None \<Rightarrow> False | Some v \<Rightarrow> v)"

definition phase_of :: "ApiCall \<Rightarrow> Phase" where
  "phase_of call =
     (if flag (is_dream call) then Dream else if flag (is_planning call) then Planning
      else Normal)"

text \<open>
  A \<^verbatim>\<open>for\<close> loop that classifies each item and pushes the line, if any, onto
  \<^verbatim>\<open>messages\<close>.
\<close>

fun render_items ::
  "(jsobj \<Rightarrow> Phase \<Rightarrow> error + Msg option) \<Rightarrow> jsobj list \<Rightarrow> Phase \<Rightarrow> Msg list \<Rightarrow> error + Msg list"
where
  "render_items f [] ph messages = Inr messages"
| "render_items f (item # items) ph messages =
     and_then (f item ph) (\<lambda>msg.
       render_items f items ph (case msg of None \<Rightarrow> messages | Some m \<Rightarrow> messages @ [m]))"

text \<open>
  The three divider blocks at the head of the callback of \<^verbatim>\<open>calls.forEach\<close>, for the
  record at index \<open>i\<close>.
\<close>

definition system_divider :: "ApiCall list \<Rightarrow> nat \<Rightarrow> Msg list" where
  "system_divider calls i =
     (let call = calls ! i in
      if \<not> flag (is_dream call) \<and> \<not> flag (is_planning call) \<and>
         (i = 0 \<or> strip (instructions call) \<noteq> strip (instructions (calls ! (i - 1))))
      then [\<lparr>side = System, text' = Str (instructions call), phase = Normal,
              image' = Undefined, isRespond = None\<rparr>]
      else [])"

definition dream_divider :: "ApiCall list \<Rightarrow> nat \<Rightarrow> Msg list" where
  "dream_divider calls i =
     (if flag (is_dream (calls ! i)) \<and> (i = 0 \<or> \<not> flag (is_dream (calls ! (i - 1))))
      then [\<lparr>side = System, text' = Str ''Reflecting...'', phase = Dream,
              image' = Undefined, isRespond = None\<rparr>]
      else [])"

definition planning_divider :: "ApiCall list \<Rightarrow> nat \<Rightarrow> Msg list" where
  "planning_divider calls i =
     (if flag (is_planning (calls ! i)) \<and> (i = 0 \<or> \<not> flag (is_planning (calls ! (i - 1))))
      then [\<lparr>side = System, text' = Str ''Planning...'', phase = Planning,
              image' = Undefined, isRespond = None\<rparr>]
      else [])"

text \<open>
  One run of the callback, for an index \<open>i\<close> below the length of the log. The state is the
  pair of \<^verbatim>\<open>messages\<close> and \<^verbatim>\<open>seenInputItems\<close>.
\<close>

definition call_step ::
  "runtime \<Rightarrow> ApiCall list \<Rightarrow> nat \<Rightarrow> Msg list \<times> nat \<Rightarrow> error + (Msg list \<times> nat)"
where
  "call_step rt calls i st =
     (let call = calls ! i;
          ph = phase_of call;
          messages = fst st @ system_divider calls i @ dream_divider calls i
                     @ planning_divider calls i;
          seenInputItems = (if snd st \<ge> length (input call) then 0 else snd st);
          newInputs = drop seenInputItems (input call)
      in and_then (render_items renderInputItem newInputs ph messages) (\<lambda>messages.
         and_then (render_items (renderOutputItem rt) (output' call) ph messages) (\<lambda>messages.
         Inr (messages, length (input call) + length (output' call)))))"

fun forEach ::
  "(nat \<Rightarrow> 's \<Rightarrow> error + 's) \<Rightarrow> nat list \<Rightarrow> 's \<Rightarrow> error + 's"
where
  "forEach body [] st = Inr st"
| "forEach body (i # is) st = and_then (body i st) (forEach body is)"

text \<open>The transcript and the final cursor for a log, or the exception that ends the render.\<close>

definition reconcile :: "runtime \<Rightarrow> ApiCall list \<Rightarrow> error + (Msg list \<times> nat)" where
  "reconcile rt calls = forEach (call_step rt calls) [0..<length calls] ([], 0)"

section \<open>The view component as an event-driven state machine\<close>

text \<open>
  The component \<^verbatim>\<open>App\<close> is single-threaded: one handler runs at a time, the state updates
  it requests are applied together when it returns (React 18 batches them), and the effects
  whose dependencies changed run after that. A state of the model holds the values of the
  \<^verbatim>\<open>useState\<close> and \<^verbatim>\<open>useRef\<close> cells, and what the browser holds for the component:
  the sockets it created, the pending reconnect timeouts, the running intervals and the
  bootstraps in flight. Real time is not modelled: a pending timeout, an interval tick, a
  fetch completion and a socket event may be dispatched in any order.
\<close>

record CrabInfo =
  id' :: string
  name' :: string
  state' :: string
  thought_count :: int

text \<open>
  A \<^verbatim>\<open>WebSocket\<close> object: the entity of its URL, whether it is still connecting or open
  (\<open>closed\<close> is false) and which of its handler slots hold a function.
\<close>

record WebSocket =
  ws_crab :: string
  closed :: bool
  onmessage :: bool
  onclose :: bool
  onerror :: bool

record App =
  calls :: "ApiCall list"
  position :: "int \<times> int"
  crabState :: string
  alert :: bool
  activity :: "string \<times> string"
  conversing :: bool
  countdown :: int
  hasNew :: bool
  crabName :: string
  focusMode :: bool
  crabs :: "CrabInfo list"
  activeCrab :: string
  countdownRef :: "nat option"
  wsRef :: "nat option"
  sockets :: "WebSocket list"
  timeouts :: "(nat \<times> string) list"
  intervals :: "nat list"
  next_timer :: nat
  loads :: "string list"

text \<open>
  \<open>wsRef\<close> and the first component of a pending timeout are indices into \<open>sockets\<close>: the
  identity of a socket object. A pending timeout is the closure of the reconnect callback,
  that is the socket and the entity id it captured. \<open>loads\<close> lists the entity ids of the
  \<^verbatim>\<open>loadCrabState\<close> calls in flight whose continuation is \<^verbatim>\<open>connectWs\<close>. Timer ids are
  positive.
\<close>

definition initial :: App where
  "initial =
     \<lparr>calls = [], position = (5, 5), crabState = ''idle'', alert = False,
      activity = (''idle'', []), conversing = False, countdown = 0, hasNew = False,
      crabName = ''the crab'', focusMode = False, crabs = [], activeCrab = [],
      countdownRef = None, wsRef = None, sockets = [], timeouts = [], intervals = [],
      next_timer = 1, loads = []\<rparr>"

definition connectWs :: "string \<Rightarrow> App \<Rightarrow> App" where
  "connectWs crabId s =
     (let s1 = (case wsRef s of
                  Some w \<Rightarrow>
                    s\<lparr>sockets := (sockets s)[w := (sockets s ! w)
                          \<lparr>closed := True, onmessage := False, onclose := False,
                           onerror := False\<rparr>],
                      wsRef := None\<rparr>
                | None \<Rightarrow> s);
          ws = length (sockets s1)
      in s1\<lparr>sockets := sockets s1 @
               [\<lparr>ws_crab = crabId, closed = False, onmessage = True, onclose = True,
                 onerror = True\<rparr>],
             wsRef := Some ws\<rparr>)"

text \<open>The events that a socket delivers, decoded: \<^verbatim>\<open>msg.event\<close> with \<^verbatim>\<open>msg.data\<close>.\<close>

datatype conversation_state = Waiting int | Ended | Other_state

datatype ws_event =
    Api_call ApiCall
  | Position "int \<times> int"
  | Status string
  | Alert
  | Activity "string \<times> string"
  | Focus_mode bool
  | Conversation conversation_state
  | Other_event

fun ws_onmessage :: "ws_event \<Rightarrow> App \<Rightarrow> App" where
  "ws_onmessage (Api_call c) s = s\<lparr>calls := calls s @ [c]\<rparr>"
| "ws_onmessage (Position p) s = s\<lparr>position := p\<rparr>"
| "ws_onmessage (Status st) s =
     (if st = ''thinking'' then s\<lparr>crabState := st, alert := False\<rparr>
      else s\<lparr>crabState := st\<rparr>)"
| "ws_onmessage Alert s = s\<lparr>alert := True\<rparr>"
| "ws_onmessage (Activity a) s = s\<lparr>activity := a\<rparr>"
| "ws_onmessage (Focus_mode b) s = s\<lparr>focusMode := b\<rparr>"
| "ws_onmessage (Conversation (Waiting t)) s = s\<lparr>conversing := True, countdown := t\<rparr>"
| "ws_onmessage (Conversation Ended) s = s\<lparr>conversing := False, countdown := 0\<rparr>"
| "ws_onmessage (Conversation Other_state) s = s"
| "ws_onmessage Other_event s = s"

text \<open>\<^verbatim>\<open>ws.onclose\<close> of socket \<open>ws\<close>, created for \<open>crabId\<close>.\<close>

definition ws_onclose :: "nat \<Rightarrow> string \<Rightarrow> App \<Rightarrow> App" where
  "ws_onclose ws crabId s =
     (if wsRef s = Some ws then s\<lparr>timeouts := timeouts s @ [(ws, crabId)]\<rparr> else s)"

text \<open>The callback given to \<^verbatim>\<open>setTimeout\<close> by \<^verbatim>\<open>ws.onclose\<close>.\<close>

definition reconnect_callback :: "nat \<Rightarrow> string \<Rightarrow> App \<Rightarrow> App" where
  "reconnect_callback ws crabId s = (if wsRef s = Some ws then connectWs crabId s else s)"

text \<open>
  What \<^verbatim>\<open>loadCrabState\<close> fetched: the three responses, or nothing when a request failed
  (the \<^verbatim>\<open>catch\<close> clause ignores the failure). An absent or empty \<^verbatim>\<open>state\<close> or
  \<^verbatim>\<open>name\<close> is the empty string.
\<close>

record bootstrap =
  rawData :: "ApiCall list"
  status_position :: "(int \<times> int) option"
  status_focus_mode :: "bool option"
  status_state :: string
  id_name :: string

definition loadCrabState_done :: "bootstrap option \<Rightarrow> App \<Rightarrow> App" where
  "loadCrabState_done res s =
     (case res of
        None \<Rightarrow> s
      | Some b \<Rightarrow>
          (let s1 = s\<lparr>calls := rawData b\<rparr>;
               s2 = (case status_position b of Some p \<Rightarrow> s1\<lparr>position := p\<rparr> | None \<Rightarrow> s1);
               s3 = (case status_focus_mode b of Some f \<Rightarrow> s2\<lparr>focusMode := f\<rparr> | None \<Rightarrow> s2);
               s4 = s3\<lparr>crabState := (if status_state b \<noteq> [] then status_state b else ''idle'')\<rparr>
           in if id_name b \<noteq> [] then s4\<lparr>crabName := id_name b\<rparr> else s4))"

text \<open>
  \<^verbatim>\<open>switchCrab\<close>: the synchronous part, and the bootstrap it starts, whose continuation
  \<^verbatim>\<open>connectWs(crabId)\<close> runs when the bootstrap has settled.
\<close>

definition switchCrab :: "string \<Rightarrow> App \<Rightarrow> App" where
  "switchCrab crabId s =
     (if crabId = activeCrab s then s
      else
        (let s1 = s\<lparr>activeCrab := crabId, conversing := False, countdown := 0, alert := False,
                    activity := (''idle'', []), hasNew := False\<rparr>;
             s2 = (case find (\<lambda>c. id' c = crabId) (crabs s) of
                     Some crab \<Rightarrow> s1\<lparr>crabName := name' crab\<rparr>
                   | None \<Rightarrow> s1)
         in s2\<lparr>loads := loads s2 @ [crabId]\<rparr>))"

text \<open>The mount effect, once the entity list has arrived.\<close>

definition mount_fetched :: "CrabInfo list \<Rightarrow> App \<Rightarrow> App" where
  "mount_fetched list s =
     (let s1 = s\<lparr>crabs := list\<rparr> in
      case list of
        [] \<Rightarrow> s1
      | first # _ \<Rightarrow>
          s1\<lparr>activeCrab := id' first, crabName := name' first, loads := loads s1 @ [id' first]\<rparr>)"

subsection \<open>The countdown effect\<close>

definition clearInterval :: "nat \<Rightarrow> App \<Rightarrow> App" where
  "clearInterval i s = s\<lparr>intervals := removeAll i (intervals s)\<rparr>"

text \<open>\<^verbatim>\<open>if (countdownRef.current) clearInterval(countdownRef.current)\<close>.\<close>

definition clear_countdownRef :: "App \<Rightarrow> App" where
  "clear_countdownRef s = (case countdownRef s of Some i \<Rightarrow> clearInterval i s | None \<Rightarrow> s)"

text \<open>The body of the effect; the cleanup of its previous run is \<open>clear_countdownRef\<close>.\<close>

definition countdown_effect :: "App \<Rightarrow> App" where
  "countdown_effect s =
     (let s1 = clear_countdownRef s in
      if countdown s1 > 0 then
        s1\<lparr>countdownRef := Some (next_timer s1), intervals := intervals s1 @ [next_timer s1],
           next_timer := Suc (next_timer s1)\<rparr>
      else s1)"

text \<open>The callback of the interval: the updater given to \<^verbatim>\<open>setCountdown\<close>.\<close>

definition countdown_tick :: "App \<Rightarrow> App" where
  "countdown_tick s =
     (if countdown s \<le> 1 then (clear_countdownRef s)\<lparr>countdown := 0\<rparr>
      else s\<lparr>countdown := countdown s - 1\<rparr>)"

text \<open>
  The render after a handler: the countdown effect depends on \<^verbatim>\<open>[conversing]\<close> only, so
  its cleanup and body run when that flag changed.
\<close>

definition commit :: "App \<Rightarrow> App \<Rightarrow> App" where
  "commit old new =
     (if conversing new \<noteq> conversing old then countdown_effect (clear_countdownRef new)
      else new)"

subsection \<open>The event loop\<close>

datatype event =
    Mount_fetched "CrabInfo list"
  | Crabs_polled "CrabInfo list"
  | Switch_clicked string
  | Load_settled nat "bootstrap option"
  | Ws_message nat ws_event
  | Ws_closed nat
  | Timeout_fired nat
  | Interval_fired nat
  | Focus_toggled
  | Log_measured bool
  | Scrolled bool

text \<open>
  The handler that an event runs. An event without a handler changes nothing: a message on
  a socket whose \<^verbatim>\<open>onmessage\<close> slot is empty or which is closed, an index that names no
  pending task. The two scroll effects measure the page, and the measurement is the argument
  of their events: \<open>Log_measured\<close> is the effect that runs when the log has grown,
  \<open>Scrolled\<close> the scroll listener; the argument tells whether the view is near the bottom.
  Unmounting the component, and the requests that only send data to the host (the message
  form, the snapshot), are outside the model.
\<close>

fun handle :: "event \<Rightarrow> App \<Rightarrow> App" where
  "handle (Mount_fetched list) s = mount_fetched list s"
| "handle (Crabs_polled list) s = s\<lparr>crabs := list\<rparr>"
| "handle (Switch_clicked crabId) s = switchCrab crabId s"
| "handle (Load_settled k res) s =
     (if k < length (loads s) then
        connectWs (loads s ! k)
          (loadCrabState_done res
            (s\<lparr>loads := take k (loads s) @ drop (Suc k) (loads s)\<rparr>))
      else s)"
| "handle (Ws_message ws ev) s =
     (if ws < length (sockets s) \<and> \<not> closed (sockets s ! ws) \<and> onmessage (sockets s ! ws)
      then ws_onmessage ev s else s)"
| "handle (Ws_closed ws) s =
     (if ws < length (sockets s) \<and> \<not> closed (sockets s ! ws) then
        (let s1 = s\<lparr>sockets := (sockets s)[ws := (sockets s ! ws)\<lparr>closed := True\<rparr>]\<rparr>
         in if onclose (sockets s ! ws) then ws_onclose ws (ws_crab (sockets s ! ws)) s1
            else s1)
      else s)"
| "handle (Timeout_fired k) s =
     (if k < length (timeouts s) then
        reconnect_callback (fst (timeouts s ! k)) (snd (timeouts s ! k))
          (s\<lparr>timeouts := take k (timeouts s) @ drop (Suc k) (timeouts s)\<rparr>)
      else s)"
| "handle (Interval_fired i) s = (if i \<in> set (intervals s) then countdown_tick s else s)"
| "handle Focus_toggled s = s\<lparr>focusMode := \<not> focusMode s\<rparr>"
| "handle (Log_measured nearBottom) s = (if nearBottom then s else s\<lparr>hasNew := True\<rparr>)"
| "handle (Scrolled nearBottom) s = (if nearBottom then s\<lparr>hasNew := False\<rparr> else s)"

definition step :: "event \<Rightarrow> App \<Rightarrow> App" where
  "step e s = commit s (handle e s)"

definition run :: "event list \<Rightarrow> App \<Rightarrow> App" where
  "run es s = fold step es s"

definition open_sockets :: "App \<Rightarrow> nat list" where
  "open_sockets s = filter (\<lambda>w. \<not> closed (sockets s ! w)) [0..<length (sockets s)]"

section \<open>Notions used to state the properties\<close>

text \<open>The lines that a list of items classifies to, in order; an item without a line adds none.\<close>

definition lines_of ::
  "(jsobj \<Rightarrow> Phase \<Rightarrow> error + Msg option) \<Rightarrow> jsobj list \<Rightarrow> Phase \<Rightarrow> Msg list"
where
  "lines_of f items ph =
     concat (map (\<lambda>item. case f item ph of Inr (Some m) \<Rightarrow> [m] | _ \<Rightarrow> []) items)"

text \<open>The value of the cursor when the record at index \<open>i\<close> is processed.\<close>

definition seen_before :: "ApiCall list \<Rightarrow> nat \<Rightarrow> nat" where
  "seen_before log i =
     (if i = 0 then 0
      else length (input (log ! (i - 1))) + length (output' (log ! (i - 1))))"

definition new_inputs :: "ApiCall list \<Rightarrow> nat \<Rightarrow> jsobj list" where
  "new_inputs log i =
     (if seen_before log i \<ge> length (input (log ! i)) then input (log ! i)
      else drop (seen_before log i) (input (log ! i)))"

text \<open>Everything that the record at index \<open>i\<close> adds to the transcript.\<close>

definition block :: "runtime \<Rightarrow> ApiCall list \<Rightarrow> nat \<Rightarrow> Msg list" where
  "block rt log i =
     system_divider log i @ dream_divider log i @ planning_divider log i
     @ lines_of renderInputItem (new_inputs log i) (phase_of (log ! i))
     @ lines_of (renderOutputItem rt) (output' (log ! i)) (phase_of (log ! i))"


text \<open>
  Field \<open>k\<close> of the last part of a content list whose \<^verbatim>\<open>type\<close> is \<open>ty\<close>, and \<open>dflt\<close>
  when no part has that type.
\<close>

definition part_field :: "jsval \<Rightarrow> string \<Rightarrow> jsval" where
  "part_field p k = (case field p k of Inr v \<Rightarrow> v | Inl e \<Rightarrow> Undefined)"

definition last_part :: "string \<Rightarrow> string \<Rightarrow> jsval \<Rightarrow> jsval list \<Rightarrow> jsval" where
  "last_part ty k dflt parts =
     (case filter (\<lambda>p. field p ''type'' = Inr (Str ty)) parts of
        [] \<Rightarrow> dflt
      | ps \<Rightarrow> part_field (last ps) k)"

subsection \<open>Lines\<close>

definition system_line :: "string \<Rightarrow> Msg" where
  "system_line ins =
     \<lparr>side = System, text' = Str ins, phase = Normal, image' = Undefined, isRespond = None\<rparr>"

definition subject_line :: "string \<Rightarrow> Phase \<Rightarrow> Msg" where
  "subject_line t ph =
     \<lparr>side = Left, text' = Str t, phase = ph, image' = Undefined, isRespond = None\<rparr>"

definition respond_line :: "jsval \<Rightarrow> Phase \<Rightarrow> Msg" where
  "respond_line v ph =
     \<lparr>side = Right, text' = v, phase = ph, image' = Undefined, isRespond = Some True\<rparr>"

definition agent_line :: "string \<Rightarrow> Phase \<Rightarrow> Msg" where
  "agent_line t ph =
     \<lparr>side = Right, text' = Str t, phase = ph, image' = Undefined, isRespond = None\<rparr>"

subsection \<open>The output items of the data model\<close>

text \<open>
  The data model of the specification has four kinds of output item. \<open>decode_output\<close> reads
  the kind and the payload of a raw item: the text of a thinking message is the texts of its
  parts, one per line, with the bracketed type of a part that has no text; a respond
  invocation carries the message of its parsed arguments, and the raw arguments when they
  do not parse or parse to \<^verbatim>\<open>null\<close>; a shell invocation carries its command in the same
  way; any other tool invocation carries its name and its arguments as text. An item of
  another type is no output item of the data model.
\<close>

datatype OutputItem =
    ThinkingMessage string
  | RespondInvocation jsval
  | ShellInvocation string
  | ToolInvocation string string
  | WebSearchCall
  | NoOutputItem

text \<open>The printed form of a value whose printing does not throw.\<close>

definition printed :: "runtime \<Rightarrow> jsval \<Rightarrow> string" where
  "printed rt v = (case to_string rt v of Inr s \<Rightarrow> s | Inl e \<Rightarrow> [])"

definition part_text :: "runtime \<Rightarrow> jsval \<Rightarrow> string" where
  "part_text rt c =
     (if truthy (part_field c ''text'') then printed rt (part_field c ''text'')
      else ''['' @ printed rt (part_field c ''type'') @ '']'')"

definition parsed_arguments :: "runtime \<Rightarrow> jsobj \<Rightarrow> jsval option" where
  "parsed_arguments rt item =
     (case get item ''arguments'' of Str s \<Rightarrow> JSON_parse rt s | a \<Rightarrow> Some a)"

definition decode_output :: "runtime \<Rightarrow> jsobj \<Rightarrow> OutputItem" where
  "decode_output rt item =
     (if get item ''type'' = Str ''message'' then
        ThinkingMessage
          (case get item ''content'' of
             Arr cs \<Rightarrow> intercalate ''\<newline>'' (map (part_text rt) cs)
           | _ \<Rightarrow> [])
      else if get item ''type'' = Str ''function_call'' then
        (if get item ''name'' = Str ''respond'' then
           RespondInvocation
             (case parsed_arguments rt item of
                Some (Obj kvs) \<Rightarrow> get kvs ''message''
              | Some Null \<Rightarrow> Str (printed rt (get item ''arguments''))
              | Some Undefined \<Rightarrow> Str (printed rt (get item ''arguments''))
              | Some v \<Rightarrow> Undefined
              | None \<Rightarrow> Str (printed rt (get item ''arguments'')))
         else if get item ''name'' = Str ''shell'' then
           ShellInvocation
             (case parsed_arguments rt item of
                Some (Obj kvs) \<Rightarrow>
                  (case to_string rt (get kvs ''command'') of
                     Inr c \<Rightarrow> c
                   | Inl e \<Rightarrow> printed rt (get item ''arguments''))
              | Some Null \<Rightarrow> printed rt (get item ''arguments'')
              | Some Undefined \<Rightarrow> printed rt (get item ''arguments'')
              | Some v \<Rightarrow> ''undefined''
              | None \<Rightarrow> printed rt (get item ''arguments''))
         else
           ToolInvocation (printed rt (get item ''name''))
             (case get item ''arguments'' of
                Str s \<Rightarrow> s
              | a \<Rightarrow> printed rt (JSON_stringify rt a)))
      else if get item ''type'' = Str ''web_search_call'' then WebSearchCall
      else NoOutputItem)"

text \<open>
  The line of an output item of the data model. A thinking message without text and an item
  that is no output item have none.
\<close>

fun line_of :: "OutputItem \<Rightarrow> Phase \<Rightarrow> Msg option" where
  "line_of (ThinkingMessage t) ph = (if t = [] then None else Some (agent_line t ph))"
| "line_of (RespondInvocation m) ph = Some (respond_line m ph)"
| "line_of (ShellInvocation c) ph = Some (agent_line (''$ '' @ c) ph)"
| "line_of (ToolInvocation n a) ph = Some (agent_line (''['' @ n @ ''] '' @ a) ph)"
| "line_of WebSearchCall ph = Some (agent_line ''[web search]'' ph)"
| "line_of NoOutputItem ph = None"

fun has_line :: "OutputItem \<Rightarrow> bool" where
  "has_line (ThinkingMessage t) = (t \<noteq> [])"
| "has_line NoOutputItem = False"
| "has_line x = True"

subsection \<open>Sample inputs\<close>

text \<open>
  A runtime for the sample inputs: its parser decodes the four JSON texts below as
  \<^verbatim>\<open>JSON.parse\<close> does and rejects \<^verbatim>\<open>no json\<close>, which is not JSON; the samples give
  it no other text, and none of them reaches \<open>JSON_stringify\<close> or \<open>Number_toString\<close>.
\<close>

definition sample_runtime :: runtime where
  "sample_runtime =
     \<lparr>JSON_parse = (\<lambda>s. if s = ''{}'' then Some (Obj [])
                         else if s = ''{\"message\": \"hello\"}''
                         then Some (Obj [(''message'', Str ''hello'')])
                         else if s = ''null'' then Some Null
                         else if s = ''[]'' then Some (Arr [])
                         else None),
      JSON_stringify = (\<lambda>v. Undefined),
      Number_toString = num_to_string\<rparr>"

definition user_item :: "jsval \<Rightarrow> jsobj" where
  "user_item content = [(''role'', Str ''user''), (''content'', content)]"

definition text_part :: "string \<Rightarrow> jsval" where
  "text_part s = Obj [(''type'', Str ''input_text''), (''text'', Str s)]"

definition respond_item :: "jsval \<Rightarrow> jsobj" where
  "respond_item args =
     [(''type'', Str ''function_call''), (''name'', Str ''respond''), (''arguments'', args)]"

definition toolresult_item :: "string \<Rightarrow> jsobj" where
  "toolresult_item out = [(''type'', Str ''function_call_output''), (''output'', Str out)]"

definition record1 :: "string \<Rightarrow> ApiCall" where
  "record1 ins =
     \<lparr>timestamp = ''t1'', instructions = ins, input = [user_item (Str ''hi'')],
      output' = [respond_item (Str ''{\"message\": \"hello\"}'')],
      is_dream = None, is_planning = None\<rparr>"

definition record2 :: "string \<Rightarrow> ApiCall" where
  "record2 ins =
     \<lparr>timestamp = ''t2'', instructions = ins,
      input = [user_item (Str ''hi''), toolresult_item ''ok''],
      output' = [], is_dream = None, is_planning = None\<rparr>"

definition thinking_item :: "string \<Rightarrow> jsobj" where
  "thinking_item t =
     [(''type'', Str ''message''),
      (''content'', Arr [Obj [(''type'', Str ''output_text''), (''text'', Str t)]])]"

definition empty_message_item :: jsobj where
  "empty_message_item = [(''type'', Str ''message''), (''content'', Arr [])]"

definition reasoning_item :: jsobj where
  "reasoning_item = [(''type'', Str ''reasoning''), (''summary'', Arr [])]"

definition web_search_item :: jsobj where
  "web_search_item = [(''type'', Str ''web_search_call'')]"

definition shell_item :: "string \<Rightarrow> jsobj" where
  "shell_item c =
     [(''type'', Str ''function_call''), (''name'', Str ''shell''),
      (''arguments'', Obj [(''command'', Str c)])]"

definition tool_item :: "string \<Rightarrow> string \<Rightarrow> jsobj" where
  "tool_item n a =
     [(''type'', Str ''function_call''), (''name'', Str n), (''arguments'', Str a)]"

text \<open>Records without input items and with the given output items.\<close>

definition output_record :: "jsobj list \<Rightarrow> ApiCall" where
  "output_record items =
     \<lparr>timestamp = [], instructions = ''I'', input = [], output' = items, is_dream = None,
      is_planning = None\<rparr>"

definition plain_record :: "string \<Rightarrow> bool option \<Rightarrow> ApiCall" where
  "plain_record ins d =
     \<lparr>timestamp = [], instructions = ins, input = [], output' = [], is_dream = d,
      is_planning = None\<rparr>"





subsection \<open>Notions about the event loop\<close>

text \<open>Socket \<open>w\<close> is torn down: closed, with every handler slot empty.\<close>

definition torn_down :: "nat \<Rightarrow> App \<Rightarrow> bool" where
  "torn_down w s \<longleftrightarrow>
     w < length (sockets s) \<and> closed (sockets s ! w) \<and> \<not> onmessage (sockets s ! w) \<and>
     \<not> onclose (sockets s ! w) \<and> \<not> onerror (sockets s ! w)"

text \<open>\<open>wsRef\<close> names a socket, and every other socket is torn down.\<close>

definition ws_inv :: "App \<Rightarrow> bool" where
  "ws_inv s \<longleftrightarrow>
     (\<forall>w. wsRef s = Some w \<longrightarrow> w < length (sockets s)) \<and>
     (\<forall>w < length (sockets s). wsRef s \<noteq> Some w \<longrightarrow> torn_down w s)"

text \<open>The current socket was created at position \<open>v\<close> or later.\<close>

definition current_from :: "nat \<Rightarrow> App \<Rightarrow> bool" where
  "current_from v s \<longleftrightarrow> (\<exists>w. wsRef s = Some w \<and> v \<le> w \<and> w < length (sockets s))"

text \<open>
  At most one interval runs, the one held in \<open>countdownRef\<close>, and none runs while no
  conversation window is open.
\<close>

definition timer_inv :: "App \<Rightarrow> bool" where
  "timer_inv s \<longleftrightarrow>
     (intervals s = [] \<or> (\<exists>i. countdownRef s = Some i \<and> intervals s = [i])) \<and>
     (\<not> conversing s \<longrightarrow> intervals s = [])"

subsection \<open>Sample states\<close>

definition crab_a :: CrabInfo where
  "crab_a = \<lparr>id' = ''a'', name' = ''Ada'', state' = ''idle'', thought_count = 0\<rparr>"

definition crab_b :: CrabInfo where
  "crab_b = \<lparr>id' = ''b'', name' = ''Bob'', state' = ''idle'', thought_count = 0\<rparr>"

text \<open>The view after the mount: entity \<open>a\<close> is active and its channel, socket 0, is open.\<close>

definition viewing_a :: App where
  "viewing_a = run [Mount_fetched [crab_a, crab_b], Load_settled 0 None] initial"

text \<open>The same view after the channel delivered a position, a status and the focus mode.\<close>

definition busy_a :: App where
  "busy_a =
     run [Ws_message 0 (Position (1, 2)), Ws_message 0 (Status ''thinking''),
          Ws_message 0 (Focus_mode True)] viewing_a"

text \<open>
  The channel of \<open>a\<close> closed, which scheduled its reconnect, and the user then switched to
  \<open>b\<close>, whose bootstrap is in flight.
\<close>

definition closed_then_switched :: App where
  "closed_then_switched = run [Ws_closed 0, Switch_clicked ''b''] viewing_a"

text \<open>
  The view of \<open>a\<close> after a waiting event with a timeout of two seconds, and the same view
  after the two ticks that bring the countdown to zero.
\<close>

definition window_open :: App where
  "window_open = run [Ws_message 0 (Conversation (Waiting 2))] viewing_a"

definition expired :: App where
  "expired = run [Interval_fired 1, Interval_fired 1] window_open"

section \<open>Properties of the reconciliation loop\<close>

subsection \<open>Auxiliary facts\<close>

lemma and_then_Inr_iff:
  "and_then m f = Inr r \<longleftrightarrow> (\<exists>x. m = Inr x \<and> f x = Inr r)"
  by (cases m) (simp_all add: and_then_def)

lemma filter_concat_map: "filter P (concat xss) = concat (map (filter P) xss)"
  by (induction xss) simp_all

lemma filter_none: "(\<And>x. x \<in> set xs \<Longrightarrow> \<not> P x) \<Longrightarrow> filter P xs = []"
  by (induction xs) simp_all

lemma filter_all: "(\<And>x. x \<in> set xs \<Longrightarrow> P x) \<Longrightarrow> filter P xs = xs"
  by (induction xs) simp_all

lemma map_index: "map (\<lambda>i. g (xs ! i)) [0..<length xs] = map g xs"
  by (rule nth_equalityI) simp_all

lemma upt2: "[0..<2] = [0, 1]"
  by (simp add: upt_rec)

lemma render_items_lines:
  "render_items f items ph msgs = Inr r \<Longrightarrow> r = msgs @ lines_of f items ph"
proof (induction items arbitrary: msgs)
  case Nil
  then show ?case by (simp add: lines_of_def)
next
  case (Cons item items)
  from Cons.prems obtain m where m: "f item ph = Inr m"
    and rest: "render_items f items ph (case m of None \<Rightarrow> msgs | Some x \<Rightarrow> msgs @ [x]) = Inr r"
    by (auto simp: and_then_Inr_iff)
  from Cons.IH [OF rest] m show ?case
    by (cases m) (simp_all add: lines_of_def)
qed

text \<open>The loop over a list of items throws only if the classifier throws on one of them.\<close>

lemma render_items_total:
  "(\<forall>item \<in> set items. \<exists>m. f item ph = Inr m) \<Longrightarrow> \<exists>r. render_items f items ph msgs = Inr r"
  by (induction items arbitrary: msgs) (auto simp: and_then_def)

lemma renderInputItem_side:
  "renderInputItem item ph = Inr (Some m) \<Longrightarrow> side m = Left"
  by (auto simp: renderInputItem_def Let_def and_then_Inr_iff split: if_splits jsval.splits)

lemma renderOutputItem_side:
  "renderOutputItem rt item ph = Inr (Some m) \<Longrightarrow> side m = Right"
  by (auto simp: renderOutputItem_def Let_def and_then_Inr_iff
      split: if_splits jsval.splits option.splits)

lemma lines_of_input_side: "m \<in> set (lines_of renderInputItem items ph) \<Longrightarrow> side m = Left"
  by (auto simp: lines_of_def renderInputItem_side split: sum.splits option.splits)

lemma lines_of_output_side:
  "m \<in> set (lines_of (renderOutputItem rt) items ph) \<Longrightarrow> side m = Right"
  by (auto simp: lines_of_def renderOutputItem_side split: sum.splits option.splits)

lemma divider_sides:
  "m \<in> set (system_divider log i) \<Longrightarrow> side m = System"
  "m \<in> set (dream_divider log i) \<Longrightarrow> side m = System"
  "m \<in> set (planning_divider log i) \<Longrightarrow> side m = System"
  by (auto simp: system_divider_def dream_divider_def planning_divider_def Let_def
      split: if_splits)


lemma call_step_result:
  assumes "call_step rt log i (msgs, seen) = Inr (msgs', seen')"
  shows "seen' = length (input (log ! i)) + length (output' (log ! i))"
    and "msgs' = msgs @ system_divider log i @ dream_divider log i @ planning_divider log i
       @ lines_of renderInputItem
           (if seen \<ge> length (input (log ! i)) then input (log ! i)
            else drop seen (input (log ! i)))
           (phase_of (log ! i))
       @ lines_of (renderOutputItem rt) (output' (log ! i)) (phase_of (log ! i))"
  using assms
  by (auto simp: call_step_def Let_def and_then_Inr_iff dest!: render_items_lines)

lemma forEach_append:
  "forEach body (xs @ ys) st = and_then (forEach body xs st) (forEach body ys)"
  by (induction xs arbitrary: st) (auto simp: and_then_def split: sum.splits)

lemma forEach_prefix:
  assumes "forEach body (xs @ ys) st = Inr r"
  shows "\<exists>r'. forEach body xs st = Inr r'"
  using assms by (auto simp: forEach_append and_then_Inr_iff)

text \<open>The state after the first \<open>n\<close> records: their blocks, and the cursor \<open>seen_before\<close>.\<close>

lemma forEach_upto:
  assumes "forEach (call_step rt log) [0..<n] ([], 0) = Inr (msgs, seen)"
  shows "msgs = concat (map (block rt log) [0..<n]) \<and> seen = seen_before log n"
  using assms
proof (induction n arbitrary: msgs seen)
  case 0
  then show ?case by (simp add: seen_before_def)
next
  case (Suc n)
  from Suc.prems obtain m s where
    pre: "forEach (call_step rt log) [0..<n] ([], 0) = Inr (m, s)"
    and last: "call_step rt log n (m, s) = Inr (msgs, seen)"
    by (auto simp: forEach_append and_then_Inr_iff)
  from Suc.IH [OF pre] have m: "m = concat (map (block rt log) [0..<n])"
    and s: "s = seen_before log n" by simp_all
  have "seen = length (input (log ! n)) + length (output' (log ! n))"
    by (rule call_step_result(1) [OF last])
  then have seen: "seen = seen_before log (Suc n)"
    by (simp add: seen_before_def)
  have "msgs = m @ block rt log n"
    unfolding block_def new_inputs_def s [symmetric]
    using call_step_result(2) [OF last] by simp
  with m seen show ?case by simp
qed

lemma reconcile_blocks:
  assumes "reconcile rt log = Inr (msgs, seen)"
  shows "msgs = concat (map (block rt log) [0..<length log])"
    and "seen = seen_before log (length log)"
  using forEach_upto [of rt log "length log" msgs seen] assms
  by (simp_all add: reconcile_def)

lemma reconcile_prefix:
  assumes "reconcile rt log = Inr (msgs, seen)" and "i \<le> length log"
  shows "\<exists>m. forEach (call_step rt log) [0..<i] ([], 0) = Inr (m, seen_before log i)"
proof -
  have "[0..<length log] = [0..<i] @ [i..<length log]"
    using assms(2) by (metis le_add_diff_inverse upt_add_eq_append zero_le)
  with assms(1) obtain r where r: "forEach (call_step rt log) [0..<i] ([], 0) = Inr r"
    unfolding reconcile_def using forEach_prefix by metis
  obtain m s where "r = (m, s)" by (cases r)
  with r forEach_upto [of rt log i m s] show ?thesis by simp
qed

text \<open>The render succeeds when the classifier throws on no item of the log.\<close>

lemma call_step_total:
  assumes "\<forall>item \<in> set (input (log ! i)). \<exists>m. renderInputItem item (phase_of (log ! i)) = Inr m"
    and "\<forall>item \<in> set (output' (log ! i)). \<exists>m. renderOutputItem rt item (phase_of (log ! i)) = Inr m"
  shows "\<exists>r. call_step rt log i st = Inr r"
proof -
  define new where
    "new = drop (if snd st \<ge> length (input (log ! i)) then 0 else snd st) (input (log ! i))"
  define start where
    "start = fst st @ system_divider log i @ dream_divider log i @ planning_divider log i"
  from assms(1) have "\<forall>item \<in> set new. \<exists>m. renderInputItem item (phase_of (log ! i)) = Inr m"
    unfolding new_def by (meson in_set_dropD)
  then obtain m1 where m1: "render_items renderInputItem new (phase_of (log ! i)) start = Inr m1"
    using render_items_total [where f = renderInputItem] by blast
  obtain m2 where
    m2: "render_items (renderOutputItem rt) (output' (log ! i)) (phase_of (log ! i)) m1 = Inr m2"
    using render_items_total [where f = "renderOutputItem rt", OF assms(2)] by blast
  show ?thesis
    using m1 m2 unfolding new_def start_def
    by (simp add: call_step_def Let_def and_then_def)
qed

lemma block_right:
  "filter (\<lambda>m. side m = Right) (block rt log i) =
     lines_of (renderOutputItem rt) (output' (log ! i)) (phase_of (log ! i))"
  unfolding block_def filter_append
  by (simp add: filter_none filter_all divider_sides lines_of_input_side lines_of_output_side)





subsection \<open>The sample records\<close>

lemma render_user_hi:
  "renderInputItem (user_item (Str ''hi'')) ph = Inr (Some (subject_line ''hi'' ph))"
  by (simp add: renderInputItem_def user_item_def get_def subject_line_def)

lemma render_toolresult_ok:
  "renderInputItem (toolresult_item ''ok'') ph = Inr (Some (subject_line ''ok'' ph))"
  by (simp add: renderInputItem_def toolresult_item_def get_def subject_line_def)

lemma render_respond_hello:
  "JSON_parse rt ''{\"message\": \"hello\"}'' = Some (Obj [(''message'', Str ''hello'')]) \<Longrightarrow>
   renderOutputItem rt (respond_item (Str ''{\"message\": \"hello\"}'')) ph
     = Inr (Some (respond_line (Str ''hello'') ph))"
  by (simp add: renderOutputItem_def respond_item_def get_def respond_line_def
      try_args_field_def)

lemma sample_parse:
  "JSON_parse sample_runtime ''{\"message\": \"hello\"}''
     = Some (Obj [(''message'', Str ''hello'')])"
  by (simp add: sample_runtime_def)

lemma reconcile_record1:
  assumes "JSON_parse rt ''{\"message\": \"hello\"}'' = Some (Obj [(''message'', Str ''hello'')])"
  shows "reconcile rt [record1 ins] =
           Inr ([system_line ins, subject_line ''hi'' Normal,
                 respond_line (Str ''hello'') Normal], 2)"
  using assms
  by (simp add: reconcile_def call_step_def Let_def and_then_def record1_def
      phase_of_def flag_def system_divider_def dream_divider_def planning_divider_def
      render_user_hi render_respond_hello system_line_def)

lemma reconcile_record12:
  assumes "JSON_parse rt ''{\"message\": \"hello\"}'' = Some (Obj [(''message'', Str ''hello'')])"
  shows "reconcile rt [record1 ins, record2 ins] =
           Inr ([system_line ins, subject_line ''hi'' Normal,
                 respond_line (Str ''hello'') Normal,
                 subject_line ''hi'' Normal, subject_line ''ok'' Normal], 2)"
  using assms
  by (simp add: reconcile_def upt2 call_step_def Let_def and_then_def record1_def record2_def
      phase_of_def flag_def system_divider_def dream_divider_def planning_divider_def
      render_user_hi render_toolresult_ok render_respond_hello system_line_def)

lemma forEach_total:
  "(\<forall>i \<in> set js. \<forall>st. \<exists>r. body i st = Inr r) \<Longrightarrow> \<exists>r. forEach body js st = Inr r"
proof (induction js arbitrary: st)
  case Nil
  show ?case by simp
next
  case (Cons j js)
  from Cons.prems obtain r where r: "body j st = Inr r" by force
  from Cons.prems have "\<forall>i \<in> set js. \<forall>st. \<exists>r. body i st = Inr r" by simp
  from Cons.IH [OF this, of r] r show ?case by (simp add: and_then_def)
qed

lemma reconcile_total:
  assumes "\<forall>c \<in> set log.
             (\<forall>item \<in> set (input c). \<exists>m. renderInputItem item (phase_of c) = Inr m) \<and>
             (\<forall>item \<in> set (output' c). \<exists>m. renderOutputItem rt item (phase_of c) = Inr m)"
  shows "\<exists>msgs seen. reconcile rt log = Inr (msgs, seen)"
proof -
  have "\<forall>i \<in> set [0..<length log]. \<forall>st. \<exists>r. call_step rt log i st = Inr r"
  proof (intro ballI allI)
    fix i st assume "i \<in> set [0..<length log]"
    then have "log ! i \<in> set log" by simp
    with assms show "\<exists>r. call_step rt log i st = Inr r"
      by (intro call_step_total) blast+
  qed
  from forEach_total [OF this, of "([], 0)"] show ?thesis
    by (auto simp: reconcile_def)
qed

section \<open>The claims about the reconciler\<close>

subsection \<open>The classifier of output items and the data model\<close>

lemma and_then_Inr: "and_then (Inr x) f = f x"
  by (simp add: and_then_def)

lemma and_then_Inl: "and_then (Inl e) f = Inl e"
  by (simp add: and_then_def)

lemma printed_Inr: "to_string rt v = Inr s \<Longrightarrow> printed rt v = s"
  by (simp add: printed_def)

lemma field_part_field: "field c k = Inr v \<Longrightarrow> part_field c k = v"
  by (simp add: part_field_def)

lemma message_part_text:
  assumes "message_part rt c = Inr v"
  shows "v \<noteq> Undefined \<and> v \<noteq> Null \<and> to_string rt v = Inr s \<longrightarrow> s = part_text rt c"
    and "v \<noteq> Undefined" "v \<noteq> Null"
  using assms
  by (auto simp: message_part_def and_then_Inr_iff part_text_def field_part_field printed_Inr
      split: if_splits)

lemma map_parts_join:
  assumes "map_parts rt cs = Inr vs" "join rt sep vs = Inr t"
  shows "t = intercalate sep (map (part_text rt) cs)"
proof -
  have "sequence (map (\<lambda>x. if x = Undefined \<or> x = Null then Inr [] else to_string rt x) vs) = Inr ss
        \<Longrightarrow> ss = map (part_text rt) cs" if "map_parts rt cs = Inr vs" for ss
    using that
  proof (induction cs arbitrary: vs ss)
    case Nil
    then show ?case by simp
  next
    case (Cons c cs)
    from Cons.prems(2) obtain v vs' where v: "message_part rt c = Inr v"
      and vs': "map_parts rt cs = Inr vs'" and vs: "vs = v # vs'"
      by (auto simp: and_then_Inr_iff)
    from message_part_text [OF v] have nn: "v \<noteq> Undefined" "v \<noteq> Null" by blast+
    from Cons.prems(1) vs nn obtain x xs where x: "to_string rt v = Inr x"
      and xs: "sequence (map (\<lambda>x. if x = Undefined \<or> x = Null then Inr [] else to_string rt x) vs') = Inr xs"
      and ss: "ss = x # xs"
      by (auto simp: and_then_Inr_iff)
    from message_part_text(1) [OF v, of x] nn x have "x = part_text rt c" by blast
    with Cons.IH [OF xs vs'] ss show ?case by simp
  qed
  with assms show ?thesis by (auto simp: join_def and_then_Inr_iff)
qed

lemma renderOutputItem_decode:
  assumes "renderOutputItem rt item ph = Inr r"
  shows "r = line_of (decode_output rt item) ph"
proof (cases "get item ''type'' = Str ''message''")
  case True
  show ?thesis
  proof (cases "get item ''content''")
    case (Arr cs)
    with True assms obtain vs t where vs: "map_parts rt cs = Inr vs" and t: "join rt ''\<newline>'' vs = Inr t"
      and r: "r = (if t \<noteq> [] then Some (agent_line t ph) else None)"
      by (auto simp: renderOutputItem_def and_then_Inr_iff agent_line_def split: if_splits)
    from map_parts_join [OF vs t] True Arr r show ?thesis
      by (simp add: decode_output_def)
  qed (use True assms in \<open>auto simp: renderOutputItem_def decode_output_def\<close>)
next
  case False
  show ?thesis
  proof (cases "get item ''type'' = Str ''function_call''")
    case fc: True
    show ?thesis
    proof (cases "get item ''name'' = Str ''respond''")
      case True
      with fc assms show ?thesis
        by (auto simp: renderOutputItem_def decode_output_def try_args_field_def
            parsed_arguments_def respond_line_def and_then_Inr_iff printed_Inr
            split: option.splits jsval.splits sum.splits)
    next
      case nr: False
      show ?thesis
      proof (cases "get item ''name'' = Str ''shell''")
        case True
        with fc nr assms False show ?thesis
          by (auto simp: renderOutputItem_def decode_output_def try_args_field_def shell_cmd_def
              parsed_arguments_def agent_line_def and_then_Inr_iff Let_def printed_Inr
              split: option.splits jsval.splits sum.splits)
      next
        case ns: False
        with fc nr assms False show ?thesis
          by (auto simp: renderOutputItem_def decode_output_def
              agent_line_def and_then_Inr_iff Let_def printed_Inr
              split: jsval.splits)
      qed
    qed
  next
    case nf: False
    with False assms show ?thesis
      by (auto simp: renderOutputItem_def decode_output_def agent_line_def)
  qed
qed

lemma render_items_ok:
  "render_items f items ph msgs = Inr r \<Longrightarrow> item \<in> set items \<Longrightarrow> \<exists>m. f item ph = Inr m"
  by (induction items arbitrary: msgs) (auto simp: and_then_Inr_iff)

lemma call_step_outputs_ok:
  assumes "call_step rt log i st = Inr r" and "item \<in> set (output' (log ! i))"
  shows "\<exists>m. renderOutputItem rt item (phase_of (log ! i)) = Inr m"
  using assms unfolding call_step_def Let_def and_then_Inr_iff
  by (metis render_items_ok)

lemma reconcile_step:
  assumes "reconcile rt log = Inr (msgs, seen)" and "i < length log"
  shows "\<exists>m r. call_step rt log i (m, seen_before log i) = Inr r"
proof -
  from reconcile_prefix [OF assms(1), of i] assms(2) obtain m where
    m: "forEach (call_step rt log) [0..<i] ([], 0) = Inr (m, seen_before log i)" by auto
  from reconcile_prefix [OF assms(1), of "Suc i"] assms(2) obtain m' where
    "forEach (call_step rt log) [0..<Suc i] ([], 0) = Inr (m', seen_before log (Suc i))"
    by auto
  with m show ?thesis by (auto simp: forEach_append and_then_Inr_iff)
qed

lemma lines_of_decode:
  assumes "\<forall>item \<in> set items. \<exists>m. renderOutputItem rt item ph = Inr m"
  shows "lines_of (renderOutputItem rt) items ph =
           List.map_filter (\<lambda>item. line_of (decode_output rt item) ph) items"
  using assms
proof (induction items)
  case Nil
  show ?case by (simp add: lines_of_def List.map_filter_simps)
next
  case (Cons item items)
  from Cons.prems obtain m where m: "renderOutputItem rt item ph = Inr m" by auto
  from renderOutputItem_decode [OF m] have d: "line_of (decode_output rt item) ph = m" by simp
  from Cons.prems have "\<forall>item \<in> set items. \<exists>m. renderOutputItem rt item ph = Inr m" by simp
  from Cons.IH [OF this] m d show ?case
    by (cases m) (simp_all add: lines_of_def List.map_filter_simps)
qed

lemma has_line_iff: "(\<exists>y. line_of x ph = Some y) \<longleftrightarrow> has_line x"
  by (cases x) simp_all

lemma length_map_filter:
  "length (List.map_filter f xs) = length (filter (\<lambda>x. f x \<noteq> None) xs)"
  by (induction xs) (auto simp: List.map_filter_simps split: option.splits)

text \<open>
  C1 (exactly-once output), as the code has it. Whenever the render of a log succeeds, the
  agent-side lines of the transcript are the lines of the output items of the data model,
  record after record and, within a record, in the order of its output items: one line for
  each thinking message with text, each respond, shell or other tool invocation and each
  search call, whatever the cursor is. A message without text and an item of another type
  have no line. So the number of agent-side lines is the number of output items that have a
  line: none of them is emitted twice and none is skipped.
\<close>

theorem exactly_once_output:
  assumes "reconcile rt log = Inr (msgs, seen)"
  shows "filter (\<lambda>m. side m = Right) msgs =
           concat (map (\<lambda>c. List.map_filter
                               (\<lambda>item. line_of (decode_output rt item) (phase_of c))
                               (output' c)) log)
       \<and> length (filter (\<lambda>m. side m = Right) msgs) =
           sum_list (map (\<lambda>c. length (filter (\<lambda>item. has_line (decode_output rt item))
                                         (output' c))) log)"
proof -
  have ok: "lines_of (renderOutputItem rt) (output' (log ! i)) (phase_of (log ! i)) =
          List.map_filter (\<lambda>item. line_of (decode_output rt item) (phase_of (log ! i)))
            (output' (log ! i))" if "i < length log" for i
  proof (rule lines_of_decode, rule ballI)
    fix item assume item: "item \<in> set (output' (log ! i))"
    from reconcile_step [OF assms that] obtain m r where
      "call_step rt log i (m, seen_before log i) = Inr r" by blast
    from call_step_outputs_ok [OF this item]
    show "\<exists>m. renderOutputItem rt item (phase_of (log ! i)) = Inr m" .
  qed
  have "filter (\<lambda>m. side m = Right) msgs =
          concat (map (\<lambda>i. lines_of (renderOutputItem rt) (output' (log ! i))
                              (phase_of (log ! i))) [0..<length log])"
    by (simp add: reconcile_blocks(1) [OF assms] filter_concat_map block_right comp_def)
  also have "\<dots> =
          concat (map (\<lambda>i. List.map_filter
                              (\<lambda>item. line_of (decode_output rt item) (phase_of (log ! i)))
                              (output' (log ! i))) [0..<length log])"
    using ok by (intro arg_cong [where f = concat] map_cong) simp_all
  also have "\<dots> =
          concat (map (\<lambda>c. List.map_filter
                              (\<lambda>item. line_of (decode_output rt item) (phase_of c))
                              (output' c)) log)"
    by (simp only: map_index [where g = "\<lambda>c. List.map_filter
                              (\<lambda>item. line_of (decode_output rt item) (phase_of c))
                              (output' c)"])
  finally have lines: "filter (\<lambda>m. side m = Right) msgs =
           concat (map (\<lambda>c. List.map_filter
                               (\<lambda>item. line_of (decode_output rt item) (phase_of c))
                               (output' c)) log)" .
  have "length (filter (\<lambda>m. side m = Right) msgs) =
           sum_list (map (\<lambda>c. length (filter (\<lambda>item. has_line (decode_output rt item))
                                         (output' c))) log)"
    unfolding lines
    by (simp add: length_concat comp_def length_map_filter has_line_iff)
  with lines show ?thesis by (rule conjI)
qed

lemma render_sample_outputs:
  "renderOutputItem rt (thinking_item ''hm'') ph = Inr (Some (agent_line ''hm'' ph))"
  "renderOutputItem rt reasoning_item ph = Inr None"
  "renderOutputItem rt empty_message_item ph = Inr None"
  "renderOutputItem rt web_search_item ph = Inr (Some (agent_line ''[web search]'' ph))"
  "renderOutputItem rt (shell_item ''ls'') ph = Inr (Some (agent_line ''$ ls'' ph))"
  "renderOutputItem rt (tool_item ''move'' ''{x}'') ph = Inr (Some (agent_line ''[move] {x}'' ph))"
  by (simp_all add: renderOutputItem_def thinking_item_def reasoning_item_def
      empty_message_item_def web_search_item_def shell_item_def tool_item_def get_def
      message_part_def join_def shell_cmd_def try_args_field_def agent_line_def and_then_def
      Let_def)

lemma decode_sample_outputs:
  "decode_output rt (thinking_item ''hm'') = ThinkingMessage ''hm''"
  "decode_output rt reasoning_item = NoOutputItem"
  "decode_output rt web_search_item = WebSearchCall"
  "decode_output rt (shell_item ''ls'') = ShellInvocation ''ls''"
  "decode_output rt (tool_item ''move'' ''{x}'') = ToolInvocation ''move'' ''{x}''"
  "decode_output sample_runtime (respond_item (Str ''{\"message\": \"hello\"}''))
     = RespondInvocation (Str ''hello'')"
  by (simp_all add: decode_output_def thinking_item_def reasoning_item_def
      web_search_item_def shell_item_def tool_item_def respond_item_def get_def
      part_text_def part_field_def printed_def parsed_arguments_def sample_runtime_def)

lemma reconcile_sample_outputs:
  "reconcile sample_runtime
     [output_record [thinking_item ''hm'', reasoning_item, web_search_item,
                     respond_item (Str ''{\"message\": \"hello\"}'')],
      output_record [shell_item ''ls'', tool_item ''move'' ''{x}'']]
   = Inr ([system_line ''I'', agent_line ''hm'' Normal, agent_line ''[web search]'' Normal,
           respond_line (Str ''hello'') Normal, agent_line ''$ ls'' Normal,
           agent_line ''[move] {x}'' Normal], 2)"
  by (simp add: reconcile_def upt2 call_step_def Let_def and_then_def output_record_def
      phase_of_def flag_def system_divider_def dream_divider_def planning_divider_def
      render_sample_outputs render_respond_hello [OF sample_parse] system_line_def)

theorem exactly_once_output_witness:
  "reconcile sample_runtime
     [output_record [thinking_item ''hm'', reasoning_item, web_search_item,
                     respond_item (Str ''{\"message\": \"hello\"}'')],
      output_record [shell_item ''ls'', tool_item ''move'' ''{x}'']]
   = Inr ([system_line ''I'', agent_line ''hm'' Normal, agent_line ''[web search]'' Normal,
           respond_line (Str ''hello'') Normal, agent_line ''$ ls'' Normal,
           agent_line ''[move] {x}'' Normal], 2)
   \<and> filter (\<lambda>m. side m = Right)
        [system_line ''I'', agent_line ''hm'' Normal, agent_line ''[web search]'' Normal,
         respond_line (Str ''hello'') Normal, agent_line ''$ ls'' Normal,
         agent_line ''[move] {x}'' Normal]
     = [agent_line ''hm'' Normal, agent_line ''[web search]'' Normal,
        respond_line (Str ''hello'') Normal, agent_line ''$ ls'' Normal,
        agent_line ''[move] {x}'' Normal]
   \<and> length (filter (\<lambda>m. side m = Right)
        [system_line ''I'', agent_line ''hm'' Normal, agent_line ''[web search]'' Normal,
         respond_line (Str ''hello'') Normal, agent_line ''$ ls'' Normal,
         agent_line ''[move] {x}'' Normal]) = 5"
proof -
  let ?log = "[output_record [thinking_item ''hm'', reasoning_item, web_search_item,
                     respond_item (Str ''{\"message\": \"hello\"}'')],
      output_record [shell_item ''ls'', tool_item ''move'' ''{x}'']]"
  let ?t = "[system_line ''I'', agent_line ''hm'' Normal, agent_line ''[web search]'' Normal,
         respond_line (Str ''hello'') Normal, agent_line ''$ ls'' Normal,
         agent_line ''[move] {x}'' Normal]"
  have r: "reconcile sample_runtime ?log = Inr (?t, 2)"
    by (rule reconcile_sample_outputs)
  note inst = exactly_once_output [OF r]
  have "concat (map (\<lambda>c. List.map_filter
                               (\<lambda>item. line_of (decode_output sample_runtime item) (phase_of c))
                               (output' c)) ?log)
        = [agent_line ''hm'' Normal, agent_line ''[web search]'' Normal,
           respond_line (Str ''hello'') Normal, agent_line ''$ ls'' Normal,
           agent_line ''[move] {x}'' Normal]"
    by (simp add: output_record_def List.map_filter_simps decode_sample_outputs phase_of_def
        flag_def)
  with conjunct1 [OF inst] have a: "filter (\<lambda>m. side m = Right) ?t
     = [agent_line ''hm'' Normal, agent_line ''[web search]'' Normal,
        respond_line (Str ''hello'') Normal, agent_line ''$ ls'' Normal,
        agent_line ''[move] {x}'' Normal]" by simp
  have "sum_list (map (\<lambda>c. length (filter (\<lambda>item. has_line (decode_output sample_runtime item))
                                         (output' c))) ?log) = 5"
    by (simp add: output_record_def decode_sample_outputs)
  with conjunct2 [OF inst] have b: "length (filter (\<lambda>m. side m = Right) ?t) = 5" by simp
  from r a b show ?thesis by blast
qed

text \<open>
  The claim as the specification words it has every output item in the transcript. A
  record whose output items are a reasoning item and a message without parts adds no
  agent-side line: the transcript of that log is the system line alone.
\<close>

theorem exactly_once_output_counterexample:
  "reconcile sample_runtime [output_record [reasoning_item, empty_message_item]]
     = Inr ([system_line ''I''], 2)"
  by (simp add: reconcile_def call_step_def Let_def and_then_def output_record_def
      phase_of_def flag_def system_divider_def dream_divider_def planning_divider_def
      render_sample_outputs system_line_def)



subsection \<open>Stripping a time line\<close>











subsection \<open>Stripping a mood or focus block\<close>





















lemma reconcile_plain:
  "reconcile rt [plain_record x None, plain_record y None] =
     Inr (if strip y \<noteq> strip x then [system_line x, system_line y] else [system_line x], 0)"
  by (simp add: reconcile_def upt2 call_step_def Let_def and_then_def
        phase_of_def flag_def system_divider_def dream_divider_def planning_divider_def
        system_line_def plain_record_def)





lemma reconcile_same:
  assumes "strip y = strip x"
  shows "reconcile rt [plain_record x None, plain_record y None] = Inr ([system_line x], 0)"
  using assms by (simp add: reconcile_plain)

lemma reconcile_differ:
  assumes "strip y \<noteq> strip x"
  shows "reconcile rt [plain_record x None, plain_record y None]
           = Inr ([system_line x, system_line y], 0)"
  using assms by (simp add: reconcile_plain)






text \<open>
  C5 (end-to-end example). Let the parser decode the argument text of the respond item.
  The log of record 1 alone renders to the system line with the instructions, the
  subject line \<open>hi\<close> and the respond line \<open>hello\<close>, and leaves the cursor at 2. Record 2 has
  two input items, so the cursor is not below their number: the step for record 2 from that
  state adds the lines of both of its input items and leaves the cursor at 2 again, and the
  log of both records renders to the five lines.
\<close>

theorem end_to_end_example:
  assumes "JSON_parse rt ''{\"message\": \"hello\"}'' = Some (Obj [(''message'', Str ''hello'')])"
  shows "reconcile rt [record1 ins] =
           Inr ([system_line ins, subject_line ''hi'' Normal,
                 respond_line (Str ''hello'') Normal], 2)
       \<and> length (input (record2 ins)) = 2
       \<and> call_step rt [record1 ins, record2 ins] 1
           ([system_line ins, subject_line ''hi'' Normal, respond_line (Str ''hello'') Normal], 2)
         = Inr ([system_line ins, subject_line ''hi'' Normal,
                 respond_line (Str ''hello'') Normal,
                 subject_line ''hi'' Normal, subject_line ''ok'' Normal], 2)
       \<and> reconcile rt [record1 ins, record2 ins] =
           Inr ([system_line ins, subject_line ''hi'' Normal,
                 respond_line (Str ''hello'') Normal,
                 subject_line ''hi'' Normal, subject_line ''ok'' Normal], 2)"
proof (intro conjI)
  show "reconcile rt [record1 ins] =
           Inr ([system_line ins, subject_line ''hi'' Normal,
                 respond_line (Str ''hello'') Normal], 2)"
    by (rule reconcile_record1 [OF assms])
  show "length (input (record2 ins)) = 2"
    by (simp add: record2_def)
  show "call_step rt [record1 ins, record2 ins] 1
           ([system_line ins, subject_line ''hi'' Normal, respond_line (Str ''hello'') Normal], 2)
         = Inr ([system_line ins, subject_line ''hi'' Normal,
                 respond_line (Str ''hello'') Normal,
                 subject_line ''hi'' Normal, subject_line ''ok'' Normal], 2)"
    by (simp add: call_step_def Let_def and_then_def record1_def record2_def
        phase_of_def flag_def system_divider_def dream_divider_def planning_divider_def
        render_user_hi render_toolresult_ok)
  show "reconcile rt [record1 ins, record2 ins] =
           Inr ([system_line ins, subject_line ''hi'' Normal,
                 respond_line (Str ''hello'') Normal,
                 subject_line ''hi'' Normal, subject_line ''ok'' Normal], 2)"
    by (rule reconcile_record12 [OF assms])
qed

theorem end_to_end_example_witness:
  "JSON_parse sample_runtime ''{\"message\": \"hello\"}''
     = Some (Obj [(''message'', Str ''hello'')])
   \<and> reconcile sample_runtime [record1 ''I''] =
       Inr ([system_line ''I'', subject_line ''hi'' Normal,
             respond_line (Str ''hello'') Normal], 2)
   \<and> reconcile sample_runtime [record1 ''I'', record2 ''I''] =
       Inr ([system_line ''I'', subject_line ''hi'' Normal,
             respond_line (Str ''hello'') Normal,
             subject_line ''hi'' Normal, subject_line ''ok'' Normal], 2)"
  using sample_parse end_to_end_example [OF sample_parse, of "''I''"] by simp

section \<open>The claims about the classifier\<close>

lemma field_not_null: "p \<noteq> Null \<Longrightarrow> p \<noteq> Undefined \<Longrightarrow> \<exists>v. field p k = Inr v"
  by (cases p) simp_all

lemma last_part_Cons:
  assumes "field p ''type'' = Inr ty"
  shows "last_part tag k dflt (p # ps) =
         last_part tag k (if ty = Str tag then part_field p k else dflt) ps"
  using assms by (auto simp: last_part_def split: list.splits)

text \<open>The loop over a content list keeps, for each of the two kinds, the last part.\<close>

lemma content_parts_last:
  assumes "Null \<notin> set ps" "Undefined \<notin> set ps"
  shows "content_parts ps (tx, im) =
           Inr (last_part ''input_text'' ''text'' tx ps,
                last_part ''input_image'' ''image_url'' im ps)"
  using assms
proof (induction ps arbitrary: tx im)
  case Nil
  show ?case by (simp add: last_part_def)
next
  case (Cons p ps)
  then have p: "p \<noteq> Null" "p \<noteq> Undefined" by auto
  obtain ty where ty: "field p ''type'' = Inr ty" using field_not_null [OF p] by blast
  obtain tv where tv: "field p ''text'' = Inr tv" using field_not_null [OF p] by blast
  obtain iv where iv: "field p ''image_url'' = Inr iv" using field_not_null [OF p] by blast
  have rest: "Null \<notin> set ps" "Undefined \<notin> set ps" using Cons.prems by auto
  show ?case
    unfolding last_part_Cons [OF ty]
    by (simp add: ty tv iv and_then_def Cons.IH [OF rest] part_field_def)
qed

text \<open>A \<^verbatim>\<open>null\<close> among the parts makes the loop throw.\<close>

lemma content_parts_null:
  "Null \<in> set ps \<or> Undefined \<in> set ps \<Longrightarrow> content_parts ps (tx, im) = Inl TypeError"
proof (induction ps arbitrary: tx im)
  case Nil
  then show ?case by simp
next
  case (Cons p ps)
  show ?case
  proof (cases "p = Null \<or> p = Undefined")
    case True
    then show ?thesis by (auto simp: and_then_def)
  next
    case False
    then obtain ty tv iv where "field p ''type'' = Inr ty" "field p ''text'' = Inr tv"
      "field p ''image_url'' = Inr iv"
      using field_not_null by blast
    moreover from False Cons.prems have "Null \<in> set ps \<or> Undefined \<in> set ps" by auto
    ultimately show ?thesis by (simp add: and_then_def Cons.IH)
  qed
qed

text \<open>
  C4 (subject item), as the code has it. For an item of role \<open>user\<close> whose content is a list
  without \<^verbatim>\<open>null\<close> entries, the classifier returns a subject-side line and never drops
  the item: the text of the line is the text of the last part of type \<open>input_text\<close> when
  there is such a part and its text is truthy, and the placeholder \<open>[image]\<close> otherwise,
  whether or not an image is present; the image of the line is the image of the last part
  of type \<open>input_image\<close>, if any. An item of role \<open>user\<close> whose content is a string maps to
  the subject-side line with that string.
\<close>

theorem subject_item_classification:
  assumes "get item ''role'' = Str ''user''"
  shows "(get item ''content'' = Arr ps \<and> Null \<notin> set ps \<and> Undefined \<notin> set ps \<longrightarrow>
            renderInputItem item ph =
              Inr (Some \<lparr>side = Left,
                         text' = (if truthy (last_part ''input_text'' ''text'' (Str []) ps)
                                  then last_part ''input_text'' ''text'' (Str []) ps
                                  else Str ''[image]''),
                         phase = ph,
                         image' = last_part ''input_image'' ''image_url'' Undefined ps,
                         isRespond = None\<rparr>))
       \<and> (get item ''content'' = Str t \<longrightarrow>
            renderInputItem item ph = Inr (Some (subject_line t ph)))"
  using assms
  by (simp add: renderInputItem_def Let_def content_parts_last and_then_def subject_line_def)

theorem subject_item_classification_witness:
  "renderInputItem (user_item (Arr [text_part ''a'', text_part ''b''])) Normal =
     Inr (Some \<lparr>side = Left, text' = Str ''b'', phase = Normal, image' = Undefined,
                isRespond = None\<rparr>)
   \<and> renderInputItem (user_item (Str ''hi'')) Normal = Inr (Some (subject_line ''hi'' Normal))"
proof -
  have u1: "get (user_item (Arr [text_part ''a'', text_part ''b''])) ''role'' = Str ''user''"
    and u2: "get (user_item (Str ''hi'')) ''role'' = Str ''user''"
    by (simp_all add: user_item_def get_def)
  have c1: "get (user_item (Arr [text_part ''a'', text_part ''b''])) ''content''
              = Arr [text_part ''a'', text_part ''b'']"
    and c2: "get (user_item (Str ''hi'')) ''content'' = Str ''hi''"
    by (simp_all add: user_item_def get_def)
  have n: "Null \<notin> set [text_part ''a'', text_part ''b'']"
    "Undefined \<notin> set [text_part ''a'', text_part ''b'']"
    by (simp_all add: text_part_def)
  have l: "last_part ''input_text'' ''text'' (Str []) [text_part ''a'', text_part ''b'']
             = Str ''b''"
    "last_part ''input_image'' ''image_url'' Undefined [text_part ''a'', text_part ''b'']
       = Undefined"
    by (simp_all add: last_part_def part_field_def text_part_def get_def)
  from subject_item_classification
      [where item = "user_item (Arr [text_part ''a'', text_part ''b''])"
        and ps = "[text_part ''a'', text_part ''b'']" and ph = Normal, OF u1] c1 n l
    subject_item_classification
      [where item = "user_item (Str ''hi'')" and t = "''hi''" and ph = Normal, OF u2] c2
  show ?thesis by simp
qed

text \<open>
  The claim as the specification words it speaks of the first text part and drops an item
  that has neither text nor image. An empty content list yields the placeholder line, and
  of two text parts the second gives the text.
\<close>

theorem subject_item_counterexample:
  "renderInputItem (user_item (Arr [])) Normal = Inr (Some (subject_line ''[image]'' Normal))
   \<and> renderInputItem (user_item (Arr [text_part ''a'', text_part ''b''])) Normal
       = Inr (Some (subject_line ''b'' Normal))"
  by (simp add: renderInputItem_def user_item_def text_part_def get_def and_then_def
      subject_line_def)

text \<open>
  C10 (respond invocation without a message), as the code has it. For a function call named
  \<open>respond\<close> whose arguments are a string, the classifier returns an agent-side line
  flagged \<open>isRespond\<close> in every case. When the string parses to an object, the text is the
  value of its field \<open>message\<close>, which is \<^verbatim>\<open>undefined\<close> when the object has no such key;
  when it parses to an array, a string, a number or a boolean, the text is
  \<^verbatim>\<open>undefined\<close> as well. The text is the argument string when the parser throws, and
  also when the string parses to \<^verbatim>\<open>null\<close>: reading the field then throws inside the
  \<^verbatim>\<open>try\<close> block.
\<close>

theorem respond_without_message:
  assumes "get item ''type'' = Str ''function_call''"
    and "get item ''name'' = Str ''respond''"
    and "get item ''arguments'' = Str s"
  shows "(JSON_parse rt s = Some (Obj kvs) \<longrightarrow>
            renderOutputItem rt item ph = Inr (Some (respond_line (get kvs ''message'') ph)))
       \<and> (JSON_parse rt s = Some (Obj kvs) \<and> map_of kvs ''message'' = None \<longrightarrow>
            renderOutputItem rt item ph = Inr (Some (respond_line Undefined ph)))
       \<and> (JSON_parse rt s = Some v \<and> v \<noteq> Null \<and> v \<noteq> Undefined \<and> (\<forall>kvs'. v \<noteq> Obj kvs') \<longrightarrow>
            renderOutputItem rt item ph = Inr (Some (respond_line Undefined ph)))
       \<and> (JSON_parse rt s = None \<or> JSON_parse rt s = Some Null \<or>
          JSON_parse rt s = Some Undefined \<longrightarrow>
            renderOutputItem rt item ph = Inr (Some (respond_line (Str s) ph)))"
proof -
  have obj: "renderOutputItem rt item ph = Inr (Some (respond_line (get kvs ''message'') ph))"
    if "JSON_parse rt s = Some (Obj kvs)"
    using assms that
    by (simp add: renderOutputItem_def try_args_field_def respond_line_def)
  have none: "renderOutputItem rt item ph = Inr (Some (respond_line Undefined ph))"
    if "JSON_parse rt s = Some (Obj kvs) \<and> map_of kvs ''message'' = None"
    using obj that by (simp add: get_def)
  have prim: "renderOutputItem rt item ph = Inr (Some (respond_line Undefined ph))"
    if "JSON_parse rt s = Some v \<and> v \<noteq> Null \<and> v \<noteq> Undefined \<and> (\<forall>kvs'. v \<noteq> Obj kvs')"
    using assms that
    by (cases v) (simp_all add: renderOutputItem_def try_args_field_def respond_line_def)
  have raw: "renderOutputItem rt item ph = Inr (Some (respond_line (Str s) ph))"
    if "JSON_parse rt s = None \<or> JSON_parse rt s = Some Null \<or> JSON_parse rt s = Some Undefined"
    using assms that
    by (auto simp: renderOutputItem_def try_args_field_def respond_line_def and_then_def)
  from obj none prim raw show ?thesis by blast
qed

theorem respond_without_message_witness:
  "renderOutputItem sample_runtime (respond_item (Str ''{}'')) Normal
     = Inr (Some (respond_line Undefined Normal))
   \<and> renderOutputItem sample_runtime (respond_item (Str ''{\"message\": \"hello\"}'')) Normal
     = Inr (Some (respond_line (Str ''hello'') Normal))
   \<and> renderOutputItem sample_runtime (respond_item (Str ''[]'')) Normal
     = Inr (Some (respond_line Undefined Normal))
   \<and> renderOutputItem sample_runtime (respond_item (Str ''no json'')) Normal
     = Inr (Some (respond_line (Str ''no json'') Normal))"
proof -
  have a: "get (respond_item (Str x)) ''type'' = Str ''function_call''"
    "get (respond_item (Str x)) ''name'' = Str ''respond''"
    "get (respond_item (Str x)) ''arguments'' = Str x" for x
    by (simp_all add: respond_item_def get_def)
  have p: "JSON_parse sample_runtime ''{}'' = Some (Obj [])"
    "JSON_parse sample_runtime ''[]'' = Some (Arr [])"
    "JSON_parse sample_runtime ''no json'' = None"
    by (simp_all add: sample_runtime_def)
  have g: "get [(''message'', Str ''hello'')] ''message'' = Str ''hello''"
    "map_of ([] :: jsobj) ''message'' = None"
    by (simp_all add: get_def)
  note t1 = respond_without_message [where item = "respond_item (Str ''{}'')" and s = "''{}''"
      and rt = sample_runtime and kvs = "[]" and ph = Normal, OF a]
  note t2 = respond_without_message [where item = "respond_item (Str ''{\"message\": \"hello\"}'')"
      and s = "''{\"message\": \"hello\"}''" and rt = sample_runtime
      and kvs = "[(''message'', Str ''hello'')]" and ph = Normal, OF a]
  note t3 = respond_without_message [where item = "respond_item (Str ''[]'')" and s = "''[]''"
      and rt = sample_runtime and v = "Arr []" and ph = Normal, OF a]
  note t4 = respond_without_message [where item = "respond_item (Str ''no json'')"
      and s = "''no json''" and rt = sample_runtime and ph = Normal, OF a]
  from conjunct1 [OF conjunct2 [OF t1]] p(1) g(2)
  have r1: "renderOutputItem sample_runtime (respond_item (Str ''{}'')) Normal
     = Inr (Some (respond_line Undefined Normal))" by blast
  from conjunct1 [OF t2] sample_parse g(1)
  have r2: "renderOutputItem sample_runtime (respond_item (Str ''{\"message\": \"hello\"}'')) Normal
     = Inr (Some (respond_line (Str ''hello'') Normal))" by simp
  from conjunct1 [OF conjunct2 [OF conjunct2 [OF t3]]] p(2)
  have r3: "renderOutputItem sample_runtime (respond_item (Str ''[]'')) Normal
     = Inr (Some (respond_line Undefined Normal))" by simp
  from conjunct2 [OF conjunct2 [OF conjunct2 [OF t4]]] p(3)
  have r4: "renderOutputItem sample_runtime (respond_item (Str ''no json'')) Normal
     = Inr (Some (respond_line (Str ''no json'') Normal))" by blast
  from r1 r2 r3 r4 show ?thesis by blast
qed

text \<open>
  The claim as the specification words it has the raw argument string used only when the
  parser throws. The text \<^verbatim>\<open>null\<close> parses, to the value \<^verbatim>\<open>null\<close>, and the line still
  carries the raw argument string.
\<close>

theorem respond_without_message_counterexample:
  "JSON_parse sample_runtime ''null'' = Some Null
   \<and> renderOutputItem sample_runtime (respond_item (Str ''null'')) Normal
     = Inr (Some (respond_line (Str ''null'') Normal))"
  by (simp add: sample_runtime_def renderOutputItem_def try_args_field_def respond_item_def
      get_def respond_line_def and_then_def)

section \<open>Properties of the event loop\<close>

subsection \<open>Fields that the handlers leave alone\<close>

lemma commit_fields [simp]:
  "sockets (commit old new) = sockets new"
  "wsRef (commit old new) = wsRef new"
  "timeouts (commit old new) = timeouts new"
  "loads (commit old new) = loads new"
  "calls (commit old new) = calls new"
  "position (commit old new) = position new"
  "crabState (commit old new) = crabState new"
  "alert (commit old new) = alert new"
  "activity (commit old new) = activity new"
  "conversing (commit old new) = conversing new"
  "countdown (commit old new) = countdown new"
  "hasNew (commit old new) = hasNew new"
  "crabName (commit old new) = crabName new"
  "focusMode (commit old new) = focusMode new"
  "crabs (commit old new) = crabs new"
  "activeCrab (commit old new) = activeCrab new"
  by (simp_all add: commit_def countdown_effect_def clear_countdownRef_def clearInterval_def
      Let_def split: option.splits)

lemma commit_same [simp]: "commit s s = s"
  by (simp add: commit_def)

lemma connectWs_fields [simp]:
  "wsRef (connectWs c s) = Some (length (sockets s))"
  "length (sockets (connectWs c s)) = Suc (length (sockets s))"
  "timeouts (connectWs c s) = timeouts s"
  "loads (connectWs c s) = loads s"
  by (simp_all add: connectWs_def Let_def split: option.splits)

lemma connectWs_new:
  "sockets (connectWs c s) ! length (sockets s) =
     \<lparr>ws_crab = c, closed = False, onmessage = True, onclose = True, onerror = True\<rparr>"
  by (simp add: connectWs_def Let_def nth_append split: option.splits)

lemma connectWs_old:
  "w < length (sockets s) \<Longrightarrow> wsRef s \<noteq> Some w \<Longrightarrow>
   sockets (connectWs c s) ! w = sockets s ! w"
  by (auto simp: connectWs_def Let_def nth_append nth_list_update split: option.splits)

lemma connectWs_current:
  "w < length (sockets s) \<Longrightarrow> wsRef s = Some w \<Longrightarrow>
   sockets (connectWs c s) ! w =
     (sockets s ! w)\<lparr>closed := True, onmessage := False, onclose := False, onerror := False\<rparr>"
  by (simp add: connectWs_def Let_def nth_append)

lemma loadCrabState_done_fields [simp]:
  "wsRef (loadCrabState_done res s) = wsRef s"
  "sockets (loadCrabState_done res s) = sockets s"
  "timeouts (loadCrabState_done res s) = timeouts s"
  "loads (loadCrabState_done res s) = loads s"
  by (simp_all add: loadCrabState_done_def Let_def split: option.splits)

lemma switchCrab_fields [simp]:
  "wsRef (switchCrab c s) = wsRef s"
  "sockets (switchCrab c s) = sockets s"
  "timeouts (switchCrab c s) = timeouts s"
  by (simp_all add: switchCrab_def Let_def split: option.splits)

lemma mount_fetched_fields [simp]:
  "wsRef (mount_fetched l s) = wsRef s"
  "sockets (mount_fetched l s) = sockets s"
  "timeouts (mount_fetched l s) = timeouts s"
  by (simp_all add: mount_fetched_def Let_def split: list.splits)

lemma ws_onmessage_fields [simp]:
  "wsRef (ws_onmessage ev s) = wsRef s"
  "sockets (ws_onmessage ev s) = sockets s"
  "timeouts (ws_onmessage ev s) = timeouts s"
  "loads (ws_onmessage ev s) = loads s"
  by (induction ev s rule: ws_onmessage.induct) simp_all

lemma countdown_tick_fields [simp]:
  "wsRef (countdown_tick s) = wsRef s"
  "sockets (countdown_tick s) = sockets s"
  "timeouts (countdown_tick s) = timeouts s"
  "loads (countdown_tick s) = loads s"
  "conversing (countdown_tick s) = conversing s"
  by (simp_all add: countdown_tick_def clear_countdownRef_def clearInterval_def split: option.splits)

lemma torn_down_connectWs: "torn_down w s \<Longrightarrow> torn_down w (connectWs c s)"
  by (cases "wsRef s = Some w") (auto simp: torn_down_def connectWs_current connectWs_old)

lemma current_torn_down: "wsRef s = Some w \<Longrightarrow> w < length (sockets s) \<Longrightarrow> torn_down w (connectWs c s)"
  by (simp add: torn_down_def connectWs_current)

lemma torn_down_handle: "torn_down w s \<Longrightarrow> torn_down w (handle e s)"
proof (cases e)
  case (Load_settled k res)
  then show "torn_down w s \<Longrightarrow> torn_down w (handle e s)"
    using torn_down_connectWs [of w "loadCrabState_done res (s\<lparr>loads := take k (loads s) @ drop (Suc k) (loads s)\<rparr>)"]
    by (auto simp: torn_down_def)
next
  case (Timeout_fired k)
  then show "torn_down w s \<Longrightarrow> torn_down w (handle e s)"
    using torn_down_connectWs [of w "s\<lparr>timeouts := take k (timeouts s) @ drop (Suc k) (timeouts s)\<rparr>"]
    by (auto simp: torn_down_def reconnect_callback_def)
next
  case (Ws_closed v)
  then show "torn_down w s \<Longrightarrow> torn_down w (handle e s)"
    by (auto simp: torn_down_def ws_onclose_def Let_def nth_list_update)
qed (auto simp: torn_down_def)

lemma torn_down_step: "torn_down w s \<Longrightarrow> torn_down w (step e s)"
  using torn_down_handle [of w s e] by (simp add: step_def torn_down_def)

lemma torn_down_run: "torn_down w s \<Longrightarrow> torn_down w (run es s)"
  unfolding run_def by (induction es arbitrary: s) (simp_all add: torn_down_step)

lemma torn_down_message: "torn_down w s \<Longrightarrow> step (Ws_message w ev) s = s"
  by (simp add: step_def torn_down_def)

lemma torn_down_closed: "torn_down w s \<Longrightarrow> step (Ws_closed w) s = s"
  by (simp add: step_def torn_down_def)

lemma ws_inv_connectWs: "ws_inv s \<Longrightarrow> ws_inv (connectWs c s)"
  unfolding ws_inv_def
proof (intro conjI allI impI)
  fix w assume "(\<forall>w. wsRef s = Some w \<longrightarrow> w < length (sockets s)) \<and>
       (\<forall>w<length (sockets s). wsRef s \<noteq> Some w \<longrightarrow> torn_down w s)"
    and "wsRef (connectWs c s) = Some w"
  then show "w < length (sockets (connectWs c s))" by simp
next
  fix w assume inv: "(\<forall>w. wsRef s = Some w \<longrightarrow> w < length (sockets s)) \<and>
       (\<forall>w<length (sockets s). wsRef s \<noteq> Some w \<longrightarrow> torn_down w s)"
    and w: "w < length (sockets (connectWs c s))" "wsRef (connectWs c s) \<noteq> Some w"
  then have lt: "w < length (sockets s)" by simp
  show "torn_down w (connectWs c s)"
  proof (cases "wsRef s = Some w")
    case True
    then show ?thesis using lt by (rule current_torn_down)
  next
    case False
    with inv lt have "torn_down w s" by blast
    then show ?thesis by (rule torn_down_connectWs)
  qed
qed

lemma ws_inv_frame:
  "ws_inv s \<Longrightarrow> wsRef s' = wsRef s \<Longrightarrow> sockets s' = sockets s \<Longrightarrow> ws_inv s'"
  by (simp add: ws_inv_def torn_down_def)

lemma ws_inv_handle: "ws_inv s \<Longrightarrow> ws_inv (handle e s)"
proof (cases e)
  case (Load_settled k res)
  assume "ws_inv s"
  then have "ws_inv (loadCrabState_done res (s\<lparr>loads := take k (loads s) @ drop (Suc k) (loads s)\<rparr>))"
    by (rule ws_inv_frame) simp_all
  then show ?thesis using Load_settled \<open>ws_inv s\<close> by (simp add: ws_inv_connectWs)
next
  case (Timeout_fired k)
  assume "ws_inv s"
  then have "ws_inv (s\<lparr>timeouts := take k (timeouts s) @ drop (Suc k) (timeouts s)\<rparr>)"
    by (rule ws_inv_frame) simp_all
  then show ?thesis using Timeout_fired \<open>ws_inv s\<close>
    by (simp add: reconnect_callback_def ws_inv_connectWs)
next
  case (Ws_closed v)
  assume "ws_inv s"
  then show ?thesis using Ws_closed
    by (auto simp: ws_inv_def torn_down_def ws_onclose_def Let_def nth_list_update)
qed (auto elim!: ws_inv_frame)

lemma ws_inv_step: "ws_inv s \<Longrightarrow> ws_inv (step e s)"
  using ws_inv_handle [of s e] unfolding step_def by (rule ws_inv_frame) simp_all

lemma ws_inv_run: "ws_inv s \<Longrightarrow> ws_inv (run es s)"
  unfolding run_def by (induction es arbitrary: s) (simp_all add: ws_inv_step)

lemma ws_inv_initial: "ws_inv initial"
  by (simp add: ws_inv_def initial_def)

lemma open_sockets_at_most_one:
  assumes "ws_inv s"
  shows "length (open_sockets s) \<le> 1"
proof -
  have "set (open_sockets s) \<subseteq> set_option (wsRef s)"
    using assms by (auto simp: open_sockets_def ws_inv_def torn_down_def)
  moreover have "distinct (open_sockets s)"
    by (simp add: open_sockets_def)
  ultimately have "card (set (open_sockets s)) \<le> card (set_option (wsRef s))"
    by (intro card_mono) simp_all
  moreover have "card (set_option (wsRef s)) \<le> 1"
    by (cases "wsRef s") simp_all
  ultimately show ?thesis
    using distinct_card [OF \<open>distinct (open_sockets s)\<close>] by simp
qed

lemma current_from_handle: "current_from v s \<Longrightarrow> current_from v (handle e s)"
proof (cases e)
  case (Ws_closed w)
  then show "current_from v s \<Longrightarrow> current_from v (handle e s)"
    by (auto simp: current_from_def ws_onclose_def Let_def)
qed (auto simp: current_from_def reconnect_callback_def)

lemma current_from_step: "current_from v s \<Longrightarrow> current_from v (step e s)"
  using current_from_handle [of v s e] by (simp add: step_def current_from_def)

lemma current_from_run: "current_from v s \<Longrightarrow> current_from v (run es s)"
  unfolding run_def by (induction es arbitrary: s) (simp_all add: current_from_step)

lemma current_from_settled:
  "j < length (loads s) \<Longrightarrow> current_from (length (sockets s)) (step (Load_settled j res) s)"
  by (simp add: step_def current_from_def)

lemma stale_timeout:
  assumes "current_from v s" "k < length (timeouts s)" "fst (timeouts s ! k) < v"
  shows "step (Timeout_fired k) s = s\<lparr>timeouts := take k (timeouts s) @ drop (Suc k) (timeouts s)\<rparr>"
  using assms by (auto simp: step_def current_from_def reconnect_callback_def commit_def)

section \<open>The claims about the view controller and the channel\<close>

subsection \<open>The sample states\<close>

lemma viewing_a_eq:
  "viewing_a =
     \<lparr>calls = [], position = (5, 5), crabState = ''idle'', alert = False,
      activity = (''idle'', []), conversing = False, countdown = 0, hasNew = False,
      crabName = ''Ada'', focusMode = False, crabs = [crab_a, crab_b], activeCrab = ''a'',
      countdownRef = None, wsRef = Some 0,
      sockets = [\<lparr>ws_crab = ''a'', closed = False, onmessage = True, onclose = True,
                  onerror = True\<rparr>],
      timeouts = [], intervals = [], next_timer = 1, loads = []\<rparr>"
  by (simp add: viewing_a_def run_def step_def commit_def mount_fetched_def
      loadCrabState_done_def connectWs_def initial_def Let_def crab_a_def crab_b_def)

lemma busy_a_eq:
  "busy_a = viewing_a\<lparr>position := (1, 2), crabState := ''thinking'', focusMode := True\<rparr>"
  by (simp add: busy_a_def run_def step_def commit_def viewing_a_eq)

lemma closed_then_switched_eq:
  "closed_then_switched =
     viewing_a\<lparr>sockets := [\<lparr>ws_crab = ''a'', closed = True, onmessage = True, onclose = True,
                              onerror = True\<rparr>],
               timeouts := [(0, ''a'')], activeCrab := ''b'', crabName := ''Bob'',
               loads := [''b'']\<rparr>"
  by (simp add: closed_then_switched_def run_def step_def commit_def viewing_a_eq
      ws_onclose_def switchCrab_def Let_def crab_a_def crab_b_def)

text \<open>
  C6 (reset on switch), as the code has it. A click on another entity makes it the active
  one at once, resets the conversation state (not conversing, countdown zero), the alert
  flag, the activity and the unseen-transcript flag to their defaults, and starts the
  bootstrap of that entity. The position, the coarse state, the focus-mode flag and the
  call log keep the values of the previous entity, and the channel is left as it is, until
  the bootstrap settles.
\<close>

theorem switch_resets_view:
  assumes "crabId \<noteq> activeCrab s"
  shows "(let s' = step (Switch_clicked crabId) s in
          activeCrab s' = crabId \<and>
          conversing s' = False \<and> countdown s' = 0 \<and> alert s' = False \<and>
          activity s' = (''idle'', []) \<and> hasNew s' = False \<and>
          position s' = position s \<and> crabState s' = crabState s \<and>
          focusMode s' = focusMode s \<and> calls s' = calls s \<and>
          wsRef s' = wsRef s \<and> sockets s' = sockets s \<and> loads s' = loads s @ [crabId])"
  using assms
  by (simp add: step_def switchCrab_def Let_def split: option.splits)

theorem switch_resets_view_witness:
  "(let s' = step (Switch_clicked ''b'') busy_a in
          activeCrab s' = ''b'' \<and>
          conversing s' = False \<and> countdown s' = 0 \<and> alert s' = False \<and>
          activity s' = (''idle'', []) \<and> hasNew s' = False \<and>
          position s' = (1, 2) \<and> crabState s' = ''thinking'' \<and>
          focusMode s' = True \<and> calls s' = [] \<and>
          wsRef s' = Some 0 \<and> loads s' = [''b''])"
proof -
  have "''b'' \<noteq> activeCrab busy_a" by (simp add: busy_a_eq viewing_a_eq)
  from switch_resets_view [OF this] show ?thesis
    by (simp add: Let_def busy_a_eq viewing_a_eq)
qed

text \<open>
  The claim as the specification words it lists the position, the coarse state and the
  focus-mode flag among the fields that the switch resets. After a switch away from a view
  that shows position \<open>(1, 2)\<close>, state \<open>thinking\<close> and focus mode on, the three fields
  still hold these values and not the defaults.
\<close>

theorem switch_resets_view_counterexample:
  "position (step (Switch_clicked ''b'') busy_a) = (1, 2)
   \<and> crabState (step (Switch_clicked ''b'') busy_a) = ''thinking''
   \<and> focusMode (step (Switch_clicked ''b'') busy_a) = True
   \<and> position initial = (5, 5) \<and> crabState initial = ''idle'' \<and> focusMode initial = False"
  by (simp add: step_def switchCrab_def Let_def busy_a_eq viewing_a_eq initial_def
      split: option.splits)

text \<open>
  C7 (channel switch safety), as the code has it. In every state that the view reaches from
  its initial state at most one socket is open. A reconnect timeout creates a socket only
  if the socket that closed is still the current one when the timeout fires. Once the
  bootstrap of a switch has settled and attached the new channel, a timeout that captured a
  socket created before that attachment never creates a socket, whenever it fires.
\<close>

theorem channel_switch_safety:
  "length (open_sockets (run es initial)) \<le> 1
   \<and> (sockets (step (Timeout_fired k) s) \<noteq> sockets s \<longrightarrow>
        k < length (timeouts s) \<and> wsRef s = Some (fst (timeouts s ! k)))
   \<and> (j < length (loads s) \<and> s' = run es' (step (Load_settled j res) s) \<and>
        k' < length (timeouts s') \<and> fst (timeouts s' ! k') < length (sockets s) \<longrightarrow>
        sockets (step (Timeout_fired k') s') = sockets s')"
proof -
  have one: "length (open_sockets (run es initial)) \<le> 1"
    by (rule open_sockets_at_most_one) (rule ws_inv_run [OF ws_inv_initial])
  have guard: "k < length (timeouts s) \<and> wsRef s = Some (fst (timeouts s ! k))"
    if "sockets (step (Timeout_fired k) s) \<noteq> sockets s"
    using that by (auto simp: step_def reconnect_callback_def split: if_splits)
  have stale: "sockets (step (Timeout_fired k') s') = sockets s'"
    if h: "j < length (loads s) \<and> s' = run es' (step (Load_settled j res) s) \<and>
        k' < length (timeouts s') \<and> fst (timeouts s' ! k') < length (sockets s)"
  proof -
    from h have "j < length (loads s)" and s': "s' = run es' (step (Load_settled j res) s)"
      by blast+
    then have cur: "current_from (length (sockets s)) s'"
      by (simp add: current_from_run current_from_settled)
    from h have k': "k' < length (timeouts s')" "fst (timeouts s' ! k') < length (sockets s)"
      by blast+
    show ?thesis
      by (simp add: stale_timeout [OF cur k'])
  qed
  from one guard stale show ?thesis by blast
qed

theorem channel_switch_safety_witness:
  "sockets (step (Timeout_fired 0) closed_then_switched) \<noteq> sockets closed_then_switched
   \<and> wsRef closed_then_switched = Some (fst (timeouts closed_then_switched ! 0))
   \<and> sockets (step (Timeout_fired 0) (step (Load_settled 0 None) closed_then_switched))
       = sockets (step (Load_settled 0 None) closed_then_switched)"
proof -
  let ?s = closed_then_switched
  let ?s' = "run [] (step (Load_settled 0 None) ?s)"
  have a: "sockets (step (Timeout_fired 0) ?s) \<noteq> sockets ?s"
    by (simp add: closed_then_switched_eq viewing_a_eq step_def reconnect_callback_def
        connectWs_def Let_def)
  have b: "(0::nat) < length (loads ?s)" "(0::nat) < length (timeouts ?s')"
    "fst (timeouts ?s' ! 0) < length (sockets ?s)"
    by (simp_all add: closed_then_switched_eq viewing_a_eq run_def step_def)
  note inst = channel_switch_safety [where s = ?s and k = 0 and j = 0 and res = None
      and es' = "[]" and s' = ?s' and k' = 0]
  from conjunct1 [OF conjunct2 [OF inst]] a
  have c: "wsRef ?s = Some (fst (timeouts ?s ! 0))" by blast
  from conjunct2 [OF conjunct2 [OF inst]] b
  have "sockets (step (Timeout_fired 0) ?s') = sockets ?s'" by blast
  then have d: "sockets (step (Timeout_fired 0) (step (Load_settled 0 None) ?s))
       = sockets (step (Load_settled 0 None) ?s)"
    by (simp add: run_def)
  from a c d show ?thesis by blast
qed

text \<open>
  The claim as the specification words it excludes a reconnect after the switch. The switch
  itself leaves \<open>wsRef\<close> alone: when the channel of \<open>a\<close> has closed, the user switches to
  \<open>b\<close>, and the timeout fires before the bootstrap of \<open>b\<close> settles, the timeout opens a
  second socket for \<open>a\<close> while \<open>b\<close> is the active entity.
\<close>

theorem channel_switch_safety_counterexample:
  "sockets (run [Ws_closed 0, Switch_clicked ''b'', Timeout_fired 0] viewing_a) =
     [\<lparr>ws_crab = ''a'', closed = True, onmessage = False, onclose = False, onerror = False\<rparr>,
      \<lparr>ws_crab = ''a'', closed = False, onmessage = True, onclose = True, onerror = True\<rparr>]
   \<and> activeCrab (run [Ws_closed 0, Switch_clicked ''b'', Timeout_fired 0] viewing_a) = ''b''
   \<and> loads (run [Ws_closed 0, Switch_clicked ''b'', Timeout_fired 0] viewing_a) = [''b'']"
  by (simp add: run_def step_def viewing_a_eq ws_onclose_def switchCrab_def
      reconnect_callback_def connectWs_def Let_def crab_a_def crab_b_def)

text \<open>
  C8 (teardown ordering), as the code has it. The switch itself leaves the sockets and the
  current channel untouched. The old channel is torn down when the bootstrap of the new
  entity settles: in one step its handlers are detached, it is closed, and the socket of
  the new entity becomes the current one. From then on the old socket stays torn down, and
  neither a message nor a close event of it changes the state.
\<close>

theorem teardown_on_attach:
  assumes "wsRef s = Some w" and "w < length (sockets s)"
  shows "sockets (step (Switch_clicked c) s) = sockets s
       \<and> wsRef (step (Switch_clicked c) s) = Some w
       \<and> (j < length (loads s) \<longrightarrow>
           (let s' = step (Load_settled j res) s in
            torn_down w s' \<and> wsRef s' = Some (length (sockets s)) \<and>
            sockets s' ! length (sockets s) =
              \<lparr>ws_crab = loads s ! j, closed = False, onmessage = True, onclose = True,
               onerror = True\<rparr> \<and>
            (\<forall>es ev. torn_down w (run es s') \<and>
                     step (Ws_message w ev) (run es s') = run es s' \<and>
                     step (Ws_closed w) (run es s') = run es s')))"
proof -
  have sw: "sockets (step (Switch_clicked c) s) = sockets s"
    by (simp add: step_def)
  have sw': "wsRef (step (Switch_clicked c) s) = Some w"
    using assms(1) by (simp add: step_def)
  have att: "(let s' = step (Load_settled j res) s in
            torn_down w s' \<and> wsRef s' = Some (length (sockets s)) \<and>
            sockets s' ! length (sockets s) =
              \<lparr>ws_crab = loads s ! j, closed = False, onmessage = True, onclose = True,
               onerror = True\<rparr> \<and>
            (\<forall>es ev. torn_down w (run es s') \<and>
                     step (Ws_message w ev) (run es s') = run es s' \<and>
                     step (Ws_closed w) (run es s') = run es s'))"
    if j: "j < length (loads s)"
  proof -
  define s0 where
    "s0 = loadCrabState_done res (s\<lparr>loads := take j (loads s) @ drop (Suc j) (loads s)\<rparr>)"
  have s': "step (Load_settled j res) s = commit s (connectWs (loads s ! j) s0)"
    using j by (simp add: step_def s0_def)
  have s0: "wsRef s0 = Some w" "sockets s0 = sockets s"
    using assms(1) by (simp_all add: s0_def)
  have td: "torn_down w (step (Load_settled j res) s)"
    unfolding s' using current_torn_down [of s0 w "loads s ! j"] s0 assms(2)
    by (simp add: torn_down_def)
  have new: "sockets (step (Load_settled j res) s) ! length (sockets s) =
              \<lparr>ws_crab = loads s ! j, closed = False, onmessage = True, onclose = True,
               onerror = True\<rparr>"
    unfolding s' using connectWs_new [of "loads s ! j" s0] s0 by simp
  have ref: "wsRef (step (Load_settled j res) s) = Some (length (sockets s))"
    unfolding s' using s0 by simp
  have later: "torn_down w (run es (step (Load_settled j res) s)) \<and>
        step (Ws_message w ev) (run es (step (Load_settled j res) s))
          = run es (step (Load_settled j res) s) \<and>
        step (Ws_closed w) (run es (step (Load_settled j res) s))
          = run es (step (Load_settled j res) s)" for es ev
    using torn_down_run [OF td, of es] by (simp add: torn_down_message torn_down_closed)
    show ?thesis
      unfolding Let_def using td ref new later by blast
  qed
  from sw sw' att show ?thesis by blast
qed

theorem teardown_on_attach_witness:
  "sockets (step (Switch_clicked ''b'') viewing_a) = sockets viewing_a
   \<and> wsRef (step (Switch_clicked ''b'') viewing_a) = Some 0
   \<and> torn_down 0 (step (Load_settled 0 None) (step (Switch_clicked ''b'') viewing_a))
   \<and> step (Ws_message 0 (Position (1, 2)))
         (run [] (step (Load_settled 0 None) (step (Switch_clicked ''b'') viewing_a)))
       = run [] (step (Load_settled 0 None) (step (Switch_clicked ''b'') viewing_a))"
proof -
  let ?s = "step (Switch_clicked ''b'') viewing_a"
  have r: "wsRef viewing_a = Some 0" "(0::nat) < length (sockets viewing_a)"
    by (simp_all add: viewing_a_eq)
  have r': "wsRef ?s = Some 0" "(0::nat) < length (sockets ?s)"
    by (simp_all add: viewing_a_eq step_def)
  have j: "(0::nat) < length (loads ?s)"
    by (simp add: viewing_a_eq step_def switchCrab_def Let_def split: option.splits)
  note a = teardown_on_attach [OF r, where c = "''b''" and j = 0 and res = None]
  note b = teardown_on_attach [OF r', where c = "''b''" and j = 0 and res = None]
  from conjunct2 [OF conjunct2 [OF b]] j
  have "torn_down 0 (step (Load_settled 0 None) ?s) \<and>
        (\<forall>es ev. torn_down 0 (run es (step (Load_settled 0 None) ?s)) \<and>
                 step (Ws_message 0 ev) (run es (step (Load_settled 0 None) ?s))
                   = run es (step (Load_settled 0 None) ?s) \<and>
                 step (Ws_closed 0) (run es (step (Load_settled 0 None) ?s))
                   = run es (step (Load_settled 0 None) ?s))"
    unfolding Let_def by blast
  with conjunct1 [OF a] conjunct1 [OF conjunct2 [OF a]] show ?thesis by blast
qed

text \<open>
  The claim as the specification words it has the old channel torn down before the
  bootstrap starts. While the bootstrap of \<open>b\<close> is in flight, a position event of the
  channel of \<open>a\<close> still moves the position of the view, which shows \<open>b\<close>.
\<close>

theorem teardown_on_attach_counterexample:
  "position (run [Switch_clicked ''b''] viewing_a) = (5, 5)
   \<and> position (run [Switch_clicked ''b'', Ws_message 0 (Position (1, 2))] viewing_a) = (1, 2)
   \<and> activeCrab (run [Switch_clicked ''b'', Ws_message 0 (Position (1, 2))] viewing_a) = ''b''
   \<and> loads (run [Switch_clicked ''b'', Ws_message 0 (Position (1, 2))] viewing_a) = [''b'']"
  by (simp add: run_def step_def viewing_a_eq switchCrab_def Let_def crab_a_def crab_b_def)

subsection \<open>The countdown\<close>

lemma removeAll_only: "set xs \<subseteq> {x} \<Longrightarrow> removeAll x xs = []"
  by (induction xs) auto

lemma connectWs_timer [simp]:
  "intervals (connectWs c s) = intervals s"
  "countdownRef (connectWs c s) = countdownRef s"
  "conversing (connectWs c s) = conversing s"
  "countdown (connectWs c s) = countdown s"
  "next_timer (connectWs c s) = next_timer s"
  by (simp_all add: connectWs_def Let_def split: option.splits)

lemma loadCrabState_done_timer [simp]:
  "intervals (loadCrabState_done res s) = intervals s"
  "countdownRef (loadCrabState_done res s) = countdownRef s"
  "conversing (loadCrabState_done res s) = conversing s"
  by (simp_all add: loadCrabState_done_def Let_def split: option.splits)

lemma mount_fetched_timer [simp]:
  "intervals (mount_fetched l s) = intervals s"
  "countdownRef (mount_fetched l s) = countdownRef s"
  "conversing (mount_fetched l s) = conversing s"
  by (simp_all add: mount_fetched_def Let_def split: list.splits)

lemma switchCrab_timer [simp]:
  "intervals (switchCrab c s) = intervals s"
  "countdownRef (switchCrab c s) = countdownRef s"
  by (simp_all add: switchCrab_def Let_def split: option.splits)

lemma ws_onmessage_timer [simp]:
  "intervals (ws_onmessage ev s) = intervals s"
  "countdownRef (ws_onmessage ev s) = countdownRef s"
  by (induction ev s rule: ws_onmessage.induct) simp_all

text \<open>A handler changes the timer fields only through the interval callback.\<close>

lemma handle_timer:
  "(\<forall>i. e \<noteq> Interval_fired i) \<Longrightarrow>
   intervals (handle e s) = intervals s \<and> countdownRef (handle e s) = countdownRef s"
  by (cases e) (simp_all add: reconnect_callback_def ws_onclose_def Let_def)

text \<open>The conversation window closes only together with a reset of the countdown.\<close>

lemma handle_window_closes:
  "conversing s \<Longrightarrow> \<not> conversing (handle e s) \<Longrightarrow> countdown (handle e s) = 0"
proof (cases e)
  case (Ws_message w ev)
  then show "conversing s \<Longrightarrow> \<not> conversing (handle e s) \<Longrightarrow> countdown (handle e s) = 0"
    by (induction ev s rule: ws_onmessage.induct) (auto split: if_splits)
next
  case (Switch_clicked c)
  then show "conversing s \<Longrightarrow> \<not> conversing (handle e s) \<Longrightarrow> countdown (handle e s) = 0"
    by (auto simp: switchCrab_def Let_def split: if_splits option.splits)
qed (auto simp: reconnect_callback_def ws_onclose_def Let_def countdown_tick_def
      clear_countdownRef_def clearInterval_def split: if_splits option.splits)

lemma commit_conversing [simp]: "conversing (commit old new) = conversing new"
  by (simp add: commit_def countdown_effect_def clear_countdownRef_def clearInterval_def Let_def
      split: option.splits)

lemma timer_inv_step: "timer_inv s \<Longrightarrow> timer_inv (step e s)"
proof (cases "\<exists>i. e = Interval_fired i")
  case True
  assume inv: "timer_inv s"
  from True obtain i where e: "e = Interval_fired i" by blast
  have "timer_inv (handle e s)"
    using inv unfolding e
    by (auto simp: timer_inv_def countdown_tick_def clear_countdownRef_def clearInterval_def
        split: option.splits)
  moreover have "conversing (handle e s) = conversing s"
    unfolding e by (simp add: countdown_tick_def clear_countdownRef_def clearInterval_def
        split: option.splits)
  ultimately show ?thesis by (simp add: step_def commit_def)
next
  case False
  assume inv: "timer_inv s"
  from False handle_timer [of e s]
  have same: "intervals (handle e s) = intervals s" "countdownRef (handle e s) = countdownRef s"
    by blast+
  show ?thesis
  proof (cases "conversing (handle e s) = conversing s")
    case True
    with same inv show ?thesis
      by (simp add: step_def commit_def timer_inv_def)
  next
    case False
    have one: "intervals (handle e s) = [] \<or>
               (\<exists>i. countdownRef (handle e s) = Some i \<and> intervals (handle e s) = [i])"
      using same inv by (simp add: timer_inv_def)
    have off: "\<not> conversing (handle e s) \<longrightarrow> countdown (handle e s) = 0"
      using False handle_window_closes [of s e] by blast
    have "timer_inv (countdown_effect (clear_countdownRef (handle e s)))"
      using one off
      by (auto simp: timer_inv_def countdown_effect_def clear_countdownRef_def
          clearInterval_def Let_def split: option.splits)
    with False show ?thesis by (simp add: step_def commit_def)
  qed
qed

lemma timer_inv_run: "timer_inv s \<Longrightarrow> timer_inv (run es s)"
  unfolding run_def by (induction es arbitrary: s) (simp_all add: timer_inv_step)

lemma timer_inv_initial: "timer_inv initial"
  by (simp add: timer_inv_def initial_def)

lemma run_snoc: "run (es @ [e]) s = step e (run es s)"
  by (simp add: run_def)

lemma run_append: "run (es @ es') s = run es' (run es s)"
  by (simp add: run_def)

text \<open>A tick of the running interval.\<close>

lemma tick_running:
  assumes "countdownRef x = Some i" "intervals x = [i]"
  shows "step (Interval_fired i) x =
           (if countdown x \<le> 1 then x\<lparr>intervals := [], countdown := 0\<rparr>
            else x\<lparr>countdown := countdown x - 1\<rparr>)"
  using assms
  by (simp add: step_def commit_def countdown_tick_def clear_countdownRef_def clearInterval_def)

lemma tick_stopped:
  assumes "intervals x = []"
  shows "step (Interval_fired i) x = x"
  using assms by (simp add: step_def commit_def)

lemma ticks_stopped:
  assumes "intervals x = []"
  shows "run (replicate k (Interval_fired i)) x = x"
  by (induction k) (simp_all add: run_def tick_stopped [OF assms])

lemma ticks:
  assumes "countdownRef x = Some i" "intervals x = [i]" "conversing x" "countdown x = t" "0 < t"
  shows "countdown (run (replicate k (Interval_fired i)) x) = max 0 (t - int k) \<and>
         intervals (run (replicate k (Interval_fired i)) x) = (if int k < t then [i] else []) \<and>
         conversing (run (replicate k (Interval_fired i)) x) \<and>
         countdownRef (run (replicate k (Interval_fired i)) x) = Some i"
proof (induction k)
  case 0
  from assms show ?case by (simp add: run_def)
next
  case (Suc k)
  let ?x = "run (replicate k (Interval_fired i)) x"
  have snoc: "run (replicate (Suc k) (Interval_fired i)) x = step (Interval_fired i) ?x"
  proof -
    have "replicate (Suc k) (Interval_fired i) = replicate k (Interval_fired i) @ [Interval_fired i]"
      by (simp add: replicate_append_same)
    then show ?thesis by (simp only: run_snoc)
  qed
  show ?case
  proof (cases "int k < t")
    case True
    with Suc.IH have x: "countdownRef ?x = Some i" "intervals ?x = [i]"
      "countdown ?x = t - int k" "conversing ?x" by simp_all
    show ?thesis
      unfolding snoc tick_running [OF x(1,2)] using x True by auto
  next
    case False
    with Suc.IH have x: "intervals ?x = []" "countdown ?x = 0" "conversing ?x"
      "countdownRef ?x = Some i" by simp_all
    show ?thesis
      unfolding snoc tick_stopped [OF x(1)] using x False by auto
  qed
qed

text \<open>A waiting event that opens the window starts a fresh interval.\<close>

lemma window_opens:
  assumes "timer_inv s" "\<not> conversing s" "0 < t"
    and "w < length (sockets s)" "\<not> closed (sockets s ! w)" "onmessage (sockets s ! w)"
  shows "step (Ws_message w (Conversation (Waiting t))) s =
           s\<lparr>conversing := True, countdown := t, countdownRef := Some (next_timer s),
             intervals := [next_timer s], next_timer := Suc (next_timer s)\<rparr>"
proof -
  from assms(1,2) have "intervals s = []" by (simp add: timer_inv_def)
  with assms(2-) show ?thesis
    by (simp add: step_def commit_def countdown_effect_def clear_countdownRef_def
        clearInterval_def Let_def split: option.splits)
qed

text \<open>
  A waiting event that arrives while the window is open does not rerun the effect, which
  depends on the flag alone: it sets the countdown and leaves the intervals as they are.
\<close>

lemma window_stays_open:
  assumes "conversing s"
    and "w < length (sockets s)" "\<not> closed (sockets s ! w)" "onmessage (sockets s ! w)"
  shows "step (Ws_message w (Conversation (Waiting t))) s = s\<lparr>countdown := t\<rparr>"
  using assms by (simp add: step_def commit_def)

text \<open>An ended event and a switch to another entity close the window and stop the interval.\<close>

lemma window_closes:
  assumes "timer_inv s"
    and "conversing (handle e s) = False" "countdown (handle e s) = 0"
    and "intervals (handle e s) = intervals s" "countdownRef (handle e s) = countdownRef s"
  shows "\<not> conversing (step e s) \<and> countdown (step e s) = 0 \<and> intervals (step e s) = []"
  using assms
  by (auto simp: step_def commit_def timer_inv_def countdown_effect_def clear_countdownRef_def
      clearInterval_def Let_def split: option.splits)

lemma ended_closes:
  assumes "timer_inv s"
    and "w < length (sockets s)" "\<not> closed (sockets s ! w)" "onmessage (sockets s ! w)"
  shows "\<not> conversing (step (Ws_message w (Conversation Ended)) s) \<and>
         countdown (step (Ws_message w (Conversation Ended)) s) = 0 \<and>
         intervals (step (Ws_message w (Conversation Ended)) s) = []"
  using assms(2-) by (intro window_closes [OF assms(1)]) simp_all

lemma switch_closes:
  assumes "timer_inv s" and "c \<noteq> activeCrab s"
  shows "\<not> conversing (step (Switch_clicked c) s) \<and>
         countdown (step (Switch_clicked c) s) = 0 \<and>
         intervals (step (Switch_clicked c) s) = []"
  using assms(2)
  by (intro window_closes [OF assms(1)])
    (simp_all add: switchCrab_def Let_def split: option.splits)

text \<open>No other event clears the flag.\<close>

lemma flag_cleared:
  assumes "conversing s"
  shows "(\<not> conversing (step e s)) =
           ((\<exists>w. e = Ws_message w (Conversation Ended) \<and> w < length (sockets s) \<and>
                 \<not> closed (sockets s ! w) \<and> onmessage (sockets s ! w)) \<or>
            (\<exists>c. e = Switch_clicked c \<and> c \<noteq> activeCrab s))"
proof (cases e)
  case (Ws_message w ev)
  show ?thesis
  proof (cases ev)
    case (Conversation cs)
    with Ws_message assms show ?thesis by (cases cs) (simp_all add: step_def)
  qed (use Ws_message assms in \<open>simp_all add: step_def\<close>)
next
  case (Switch_clicked c)
  with assms show ?thesis
    by (simp add: step_def switchCrab_def Let_def split: option.splits)
qed (use assms in \<open>simp_all add: step_def mount_fetched_def reconnect_callback_def
      ws_onclose_def countdown_tick_def clear_countdownRef_def clearInterval_def Let_def
      split: list.splits option.splits\<close>)

lemma flag_stays:
  assumes "conversing s"
    and "\<forall>e \<in> set es. (\<forall>w. e \<noteq> Ws_message w (Conversation Ended)) \<and> (\<forall>c. e \<noteq> Switch_clicked c)"
  shows "conversing (run es s)"
  using assms
proof (induction es arbitrary: s)
  case Nil
  then show ?case by (simp add: run_def)
next
  case (Cons e es)
  from Cons.prems have "conversing (step e s)"
    using flag_cleared [of s e] by auto
  moreover from Cons.prems
  have "\<forall>e \<in> set es. (\<forall>w. e \<noteq> Ws_message w (Conversation Ended)) \<and> (\<forall>c. e \<noteq> Switch_clicked c)"
    by simp
  ultimately have "conversing (run es (step e s))" by (rule Cons.IH)
  then show ?case by (simp add: run_def)
qed

text \<open>
  C9 (session countdown), as the code has it. Let \<open>s\<close> be a state that the view can reach.
  \<^item> A waiting event with a positive timeout \<open>t\<close> on an open channel sets the flag
    \<open>conversing\<close> and the countdown to \<open>t\<close>.
  \<^item> If no window was open in \<open>s\<close>, or the interval of an open window was still running,
    exactly one interval \<open>i\<close> runs afterwards: a fresh one in the first case, the running
    one in the second. After \<open>k\<close> ticks of it the countdown is \<open>t - k\<close>, and zero from the
    \<open>t\<close>-th tick on; the interval runs as long as fewer than \<open>t\<close> ticks have happened and is
    stopped from then on, so that the countdown stays at zero and is never negative. The
    flag stays set throughout: the expiry does not clear it.
  \<^item> If the window was open in \<open>s\<close> and its interval had stopped, no interval is started
    and the countdown stays at \<open>t\<close>, whatever ticks are dispatched.
  \<^item> An ended event on an open channel, and a switch to another entity, clear the flag,
    set the countdown to zero and stop the interval.
  \<^item> A set flag is cleared by these two events and by no other, so it stays set along
    every sequence of events that has neither an ended event nor a switch.
\<close>

theorem countdown_machine:
  assumes "s = run es initial"
  shows "(w < length (sockets s) \<and> \<not> closed (sockets s ! w) \<and> onmessage (sockets s ! w) \<and> 0 < t
          \<longrightarrow> conversing (step (Ws_message w (Conversation (Waiting t))) s) \<and>
              countdown (step (Ws_message w (Conversation (Waiting t))) s) = t)
       \<and> (w < length (sockets s) \<and> \<not> closed (sockets s ! w) \<and> onmessage (sockets s ! w) \<and> 0 < t \<and>
          (\<not> conversing s \<or> intervals s \<noteq> [])
          \<longrightarrow> (\<exists>i. intervals (step (Ws_message w (Conversation (Waiting t))) s) = [i] \<and>
                   (if conversing s then intervals s = [i] else i = next_timer s) \<and>
                   (\<forall>k. countdown (run (replicate k (Interval_fired i))
                              (step (Ws_message w (Conversation (Waiting t))) s))
                          = max 0 (t - int k) \<and>
                        intervals (run (replicate k (Interval_fired i))
                              (step (Ws_message w (Conversation (Waiting t))) s))
                          = (if int k < t then [i] else []) \<and>
                        conversing (run (replicate k (Interval_fired i))
                              (step (Ws_message w (Conversation (Waiting t))) s)))))
       \<and> (w < length (sockets s) \<and> \<not> closed (sockets s ! w) \<and> onmessage (sockets s ! w) \<and>
          conversing s \<and> intervals s = []
          \<longrightarrow> intervals (step (Ws_message w (Conversation (Waiting t))) s) = [] \<and>
              (\<forall>j k. countdown (run (replicate k (Interval_fired j))
                         (step (Ws_message w (Conversation (Waiting t))) s)) = t))
       \<and> (w < length (sockets s) \<and> \<not> closed (sockets s ! w) \<and> onmessage (sockets s ! w)
          \<longrightarrow> \<not> conversing (step (Ws_message w (Conversation Ended)) s) \<and>
              countdown (step (Ws_message w (Conversation Ended)) s) = 0 \<and>
              intervals (step (Ws_message w (Conversation Ended)) s) = [])
       \<and> (c \<noteq> activeCrab s
          \<longrightarrow> \<not> conversing (step (Switch_clicked c) s) \<and>
              countdown (step (Switch_clicked c) s) = 0 \<and>
              intervals (step (Switch_clicked c) s) = [])
       \<and> (conversing s
          \<longrightarrow> (\<not> conversing (step e s)) =
                ((\<exists>v. e = Ws_message v (Conversation Ended) \<and> v < length (sockets s) \<and>
                      \<not> closed (sockets s ! v) \<and> onmessage (sockets s ! v)) \<or>
                 (\<exists>d. e = Switch_clicked d \<and> d \<noteq> activeCrab s)))
       \<and> (conversing s \<and>
          (\<forall>e \<in> set later. (\<forall>v. e \<noteq> Ws_message v (Conversation Ended)) \<and>
                            (\<forall>d. e \<noteq> Switch_clicked d))
          \<longrightarrow> conversing (run later s))"
proof -
  let ?s1 = "step (Ws_message w (Conversation (Waiting t))) s"
  have inv: "timer_inv s"
    unfolding assms by (rule timer_inv_run [OF timer_inv_initial])
  have sets: "conversing ?s1 \<and> countdown ?s1 = t"
    if h: "w < length (sockets s) \<and> \<not> closed (sockets s ! w) \<and> onmessage (sockets s ! w) \<and> 0 < t"
    using h by (simp add: step_def)
  have counts: "\<exists>i. intervals ?s1 = [i] \<and>
                   (if conversing s then intervals s = [i] else i = next_timer s) \<and>
                   (\<forall>k. countdown (run (replicate k (Interval_fired i)) ?s1) = max 0 (t - int k) \<and>
                        intervals (run (replicate k (Interval_fired i)) ?s1)
                          = (if int k < t then [i] else []) \<and>
                        conversing (run (replicate k (Interval_fired i)) ?s1))"
    if h: "w < length (sockets s) \<and> \<not> closed (sockets s ! w) \<and> onmessage (sockets s ! w) \<and> 0 < t \<and>
          (\<not> conversing s \<or> intervals s \<noteq> [])"
  proof (cases "conversing s")
    case False
    define i where "i = next_timer s"
    from h False have s1: "?s1 = s\<lparr>conversing := True, countdown := t, countdownRef := Some i,
             intervals := [i], next_timer := Suc i\<rparr>"
      unfolding i_def by (intro window_opens [OF inv]) simp_all
    then have a: "countdownRef ?s1 = Some i" "intervals ?s1 = [i]" "conversing ?s1"
      "countdown ?s1 = t" by simp_all
    from h have "0 < t" by simp
    from ticks [OF a this] a False i_def show ?thesis by auto
  next
    case True
    with h inv obtain i where i: "countdownRef s = Some i" "intervals s = [i]"
      by (auto simp: timer_inv_def)
    from h True have s1: "?s1 = s\<lparr>countdown := t\<rparr>"
      by (intro window_stays_open) simp_all
    with i True have a: "countdownRef ?s1 = Some i" "intervals ?s1 = [i]" "conversing ?s1"
      "countdown ?s1 = t" by simp_all
    from h have "0 < t" by simp
    from ticks [OF a this] a True i show ?thesis by auto
  qed
  have stuck: "intervals ?s1 = [] \<and>
              (\<forall>j k. countdown (run (replicate k (Interval_fired j)) ?s1) = t)"
    if h: "w < length (sockets s) \<and> \<not> closed (sockets s ! w) \<and> onmessage (sockets s ! w) \<and>
          conversing s \<and> intervals s = []"
  proof -
    from h have s1: "?s1 = s\<lparr>countdown := t\<rparr>"
      by (intro window_stays_open) simp_all
    with h have e: "intervals ?s1 = []" by simp
    from ticks_stopped [OF e] e s1 show ?thesis by simp
  qed
  have ended: "\<not> conversing (step (Ws_message w (Conversation Ended)) s) \<and>
              countdown (step (Ws_message w (Conversation Ended)) s) = 0 \<and>
              intervals (step (Ws_message w (Conversation Ended)) s) = []"
    if h: "w < length (sockets s) \<and> \<not> closed (sockets s ! w) \<and> onmessage (sockets s ! w)"
    using h by (intro ended_closes [OF inv]) simp_all
  have switch: "\<not> conversing (step (Switch_clicked c) s) \<and>
              countdown (step (Switch_clicked c) s) = 0 \<and>
              intervals (step (Switch_clicked c) s) = []"
    if h: "c \<noteq> activeCrab s"
    using h by (rule switch_closes [OF inv])
  have only: "(\<not> conversing (step e s)) =
                ((\<exists>v. e = Ws_message v (Conversation Ended) \<and> v < length (sockets s) \<and>
                      \<not> closed (sockets s ! v) \<and> onmessage (sockets s ! v)) \<or>
                 (\<exists>d. e = Switch_clicked d \<and> d \<noteq> activeCrab s))"
    if h: "conversing s"
    using h by (rule flag_cleared)
  have stays: "conversing (run later s)"
    if h: "conversing s \<and>
          (\<forall>e \<in> set later. (\<forall>v. e \<noteq> Ws_message v (Conversation Ended)) \<and>
                            (\<forall>d. e \<noteq> Switch_clicked d))"
    using h by (intro flag_stays) simp_all
  from sets counts stuck ended switch only stays show ?thesis by blast
qed

subsection \<open>The sample windows\<close>

lemma window_open_eq:
  "window_open = viewing_a\<lparr>conversing := True, countdown := 2, countdownRef := Some 1,
                   intervals := [1], next_timer := 2\<rparr>"
  by (simp add: window_open_def run_def step_def commit_def viewing_a_eq countdown_effect_def
      clear_countdownRef_def clearInterval_def Let_def)

lemma expired_eq:
  "expired = viewing_a\<lparr>conversing := True, countdown := 0, countdownRef := Some 1,
               intervals := [], next_timer := 2\<rparr>"
  by (simp add: expired_def run_def step_def commit_def window_open_eq viewing_a_eq
      countdown_tick_def clear_countdownRef_def clearInterval_def)

lemma sample_windows_reached:
  "viewing_a = run [Mount_fetched [crab_a, crab_b], Load_settled 0 None] initial"
  "window_open = run [Mount_fetched [crab_a, crab_b], Load_settled 0 None,
                      Ws_message 0 (Conversation (Waiting 2))] initial"
  "expired = run [Mount_fetched [crab_a, crab_b], Load_settled 0 None,
                  Ws_message 0 (Conversation (Waiting 2)), Interval_fired 1, Interval_fired 1]
               initial"
  by (simp_all add: expired_def window_open_def viewing_a_def run_def)

theorem countdown_machine_witness:
  "conversing (step (Ws_message 0 (Conversation (Waiting 2))) viewing_a)
   \<and> countdown (step (Ws_message 0 (Conversation (Waiting 2))) viewing_a) = 2
   \<and> intervals (step (Ws_message 0 (Conversation (Waiting 2))) viewing_a) = [1]
   \<and> countdown (run (replicate 1 (Interval_fired 1))
        (step (Ws_message 0 (Conversation (Waiting 2))) viewing_a)) = 1
   \<and> countdown (run (replicate 2 (Interval_fired 1))
        (step (Ws_message 0 (Conversation (Waiting 2))) viewing_a)) = 0
   \<and> intervals (run (replicate 2 (Interval_fired 1))
        (step (Ws_message 0 (Conversation (Waiting 2))) viewing_a)) = []
   \<and> countdown (run (replicate 3 (Interval_fired 1))
        (step (Ws_message 0 (Conversation (Waiting 2))) viewing_a)) = 0
   \<and> conversing (run (replicate 3 (Interval_fired 1))
        (step (Ws_message 0 (Conversation (Waiting 2))) viewing_a))
   \<and> countdown (step (Ws_message 0 (Conversation (Waiting 5))) window_open) = 5
   \<and> intervals (step (Ws_message 0 (Conversation (Waiting 5))) window_open) = [1]
   \<and> countdown (run (replicate 4 (Interval_fired 1))
        (step (Ws_message 0 (Conversation (Waiting 5))) window_open)) = 1
   \<and> countdown (run (replicate 5 (Interval_fired 1))
        (step (Ws_message 0 (Conversation (Waiting 5))) window_open)) = 0
   \<and> intervals (run (replicate 5 (Interval_fired 1))
        (step (Ws_message 0 (Conversation (Waiting 5))) window_open)) = []
   \<and> intervals (step (Ws_message 0 (Conversation (Waiting 5))) expired) = []
   \<and> countdown (run (replicate 3 (Interval_fired 1))
        (step (Ws_message 0 (Conversation (Waiting 5))) expired)) = 5
   \<and> \<not> conversing (step (Ws_message 0 (Conversation Ended)) window_open)
   \<and> countdown (step (Ws_message 0 (Conversation Ended)) window_open) = 0
   \<and> intervals (step (Ws_message 0 (Conversation Ended)) window_open) = []
   \<and> \<not> conversing (step (Switch_clicked ''b'') window_open)
   \<and> countdown (step (Switch_clicked ''b'') window_open) = 0
   \<and> intervals (step (Switch_clicked ''b'') window_open) = []
   \<and> conversing (step (Interval_fired 1) expired)
   \<and> conversing (run [Interval_fired 1, Ws_message 0 (Conversation (Waiting 1)),
                       Interval_fired 1, Load_settled 0 None] window_open)"
proof -
  let ?a = "step (Ws_message 0 (Conversation (Waiting 2))) viewing_a"
  let ?b = "step (Ws_message 0 (Conversation (Waiting 5))) window_open"
  let ?c = "step (Ws_message 0 (Conversation (Waiting 5))) expired"
  note closed = countdown_machine [OF sample_windows_reached(1), where w = 0 and t = 2]
  note running = countdown_machine [OF sample_windows_reached(2), where w = 0 and t = 5
      and c = "''b''" and later = "[Interval_fired 1, Ws_message 0 (Conversation (Waiting 1)),
                       Interval_fired 1, Load_settled 0 None]"]
  note stopped = countdown_machine [OF sample_windows_reached(3), where w = 0 and t = 5
      and e = "Interval_fired 1"]
  have va: "0 < length (sockets viewing_a) \<and> \<not> closed (sockets viewing_a ! 0) \<and>
       onmessage (sockets viewing_a ! 0) \<and> (0::int) < 2"
    "\<not> conversing viewing_a" "next_timer viewing_a = 1"
    by (simp_all add: viewing_a_eq)
  have wo: "0 < length (sockets window_open) \<and> \<not> closed (sockets window_open ! 0) \<and>
       onmessage (sockets window_open ! 0) \<and> (0::int) < 5"
    "0 < length (sockets window_open) \<and> \<not> closed (sockets window_open ! 0) \<and>
       onmessage (sockets window_open ! 0)"
    "conversing window_open" "intervals window_open = [1]" "''b'' \<noteq> activeCrab window_open"
    by (simp_all add: window_open_eq viewing_a_eq)
  have ex: "0 < length (sockets expired) \<and> \<not> closed (sockets expired ! 0) \<and>
       onmessage (sockets expired ! 0)"
    "conversing expired" "intervals expired = []"
    by (simp_all add: expired_eq viewing_a_eq)
  have a1: "conversing ?a \<and> countdown ?a = 2"
    using closed [THEN conjunct1] va(1) by blast
  from closed [THEN conjunct2, THEN conjunct1] va
  obtain i where i: "intervals ?a = [i]" "i = 1"
    and ik: "\<And>k. countdown (run (replicate k (Interval_fired i)) ?a) = max 0 (2 - int k) \<and>
                 intervals (run (replicate k (Interval_fired i)) ?a)
                   = (if int k < 2 then [i] else []) \<and>
                 conversing (run (replicate k (Interval_fired i)) ?a)"
    by auto
  have a2: "intervals ?a = [1]"
    "countdown (run (replicate 1 (Interval_fired 1)) ?a) = 1"
    "countdown (run (replicate 2 (Interval_fired 1)) ?a) = 0"
    "intervals (run (replicate 2 (Interval_fired 1)) ?a) = []"
    "countdown (run (replicate 3 (Interval_fired 1)) ?a) = 0"
    "conversing (run (replicate 3 (Interval_fired 1)) ?a)"
    using i ik [of 1] ik [of 2] ik [of 3] by simp_all
  have b1: "countdown ?b = 5"
    using running [THEN conjunct1] wo(1) by blast
  from running [THEN conjunct2, THEN conjunct1] wo
  obtain j where j: "intervals ?b = [j]" "j = 1"
    and jk: "\<And>k. countdown (run (replicate k (Interval_fired j)) ?b) = max 0 (5 - int k) \<and>
                 intervals (run (replicate k (Interval_fired j)) ?b)
                   = (if int k < 5 then [j] else []) \<and>
                 conversing (run (replicate k (Interval_fired j)) ?b)"
    by auto
  have b2: "intervals ?b = [1]"
    "countdown (run (replicate 4 (Interval_fired 1)) ?b) = 1"
    "countdown (run (replicate 5 (Interval_fired 1)) ?b) = 0"
    "intervals (run (replicate 5 (Interval_fired 1)) ?b) = []"
    using j jk [of 4] jk [of 5] by simp_all
  have c1: "intervals ?c = [] \<and>
            (\<forall>j k. countdown (run (replicate k (Interval_fired j)) ?c) = 5)"
    using stopped [THEN conjunct2, THEN conjunct2, THEN conjunct1] ex by blast
  then have c2: "intervals ?c = []" "countdown (run (replicate 3 (Interval_fired 1)) ?c) = 5"
    by blast+
  have d: "\<not> conversing (step (Ws_message 0 (Conversation Ended)) window_open) \<and>
           countdown (step (Ws_message 0 (Conversation Ended)) window_open) = 0 \<and>
           intervals (step (Ws_message 0 (Conversation Ended)) window_open) = []"
    using running [THEN conjunct2, THEN conjunct2, THEN conjunct2, THEN conjunct1] wo(2)
    by blast
  have f: "\<not> conversing (step (Switch_clicked ''b'') window_open) \<and>
           countdown (step (Switch_clicked ''b'') window_open) = 0 \<and>
           intervals (step (Switch_clicked ''b'') window_open) = []"
    using running [THEN conjunct2, THEN conjunct2, THEN conjunct2, THEN conjunct2,
        THEN conjunct1] wo(5)
    by blast
  have g: "conversing (step (Interval_fired 1) expired)"
    using stopped [THEN conjunct2, THEN conjunct2, THEN conjunct2, THEN conjunct2,
        THEN conjunct2, THEN conjunct1] ex(2)
    by simp
  have h: "conversing (run [Interval_fired 1, Ws_message 0 (Conversation (Waiting 1)),
                       Interval_fired 1, Load_settled 0 None] window_open)"
    using running [THEN conjunct2, THEN conjunct2, THEN conjunct2, THEN conjunct2,
        THEN conjunct2, THEN conjunct2] wo(3)
    by simp
  from a1 a2 b1 b2 c2 d f g h show ?thesis by blast
qed

text \<open>
  The claim as the specification words it has the flag \<open>conversing\<close> cleared when the
  countdown reaches zero, and has every waiting event start the countdown. After a waiting
  event with timeout 2 and two ticks the countdown is zero and the interval is stopped, and
  the flag is still set. A waiting event with timeout 5 that arrives then sets the countdown
  to 5 and starts no interval, and the countdown is still 5 after two ticks.
\<close>

theorem countdown_machine_counterexample:
  "countdown (run [Ws_message 0 (Conversation (Waiting 2)), Interval_fired 1, Interval_fired 1]
      viewing_a) = 0
   \<and> intervals (run [Ws_message 0 (Conversation (Waiting 2)), Interval_fired 1, Interval_fired 1]
      viewing_a) = []
   \<and> conversing (run [Ws_message 0 (Conversation (Waiting 2)), Interval_fired 1, Interval_fired 1]
      viewing_a) = True
   \<and> countdown (run [Ws_message 0 (Conversation (Waiting 2)), Interval_fired 1, Interval_fired 1,
                     Ws_message 0 (Conversation (Waiting 5)), Interval_fired 1, Interval_fired 2]
      viewing_a) = 5
   \<and> intervals (run [Ws_message 0 (Conversation (Waiting 2)), Interval_fired 1, Interval_fired 1,
                     Ws_message 0 (Conversation (Waiting 5)), Interval_fired 1, Interval_fired 2]
      viewing_a) = []"
  by (simp add: run_def step_def commit_def viewing_a_eq countdown_effect_def countdown_tick_def
      clear_countdownRef_def clearInterval_def Let_def)

end
